theory Spec2Isabelle
  imports Main "HOL-Library.Word" "HOL-Library.Signed_Division"
begin

section \<open>The SPDK logging module, lib/log/log.c\<close>

text \<open>
  The module keeps its configuration and the rate limiter in file-scope variables and
  writes to two sinks: standard error and the system log. The embedding threads one
  record \<open>log_state\<close> holding the variables and everything written to the sinks so far,
  and takes what the operating system supplies during one call (the outcome of the
  try-lock, the clock readings, the broken-down local time) as a record \<open>env\<close>.
  C \<open>int\<close> is \<open>32 word\<close>, \<open>long\<close> and \<open>long long\<close> are \<open>64 word\<close> (LP64); signed
  overflow, undefined in C, wraps around as it does on the two's-complement targets
  the library is built for.
\<close>

subsection \<open>Severity levels\<close>

text \<open>
  Modelled from the spec: the declaration of \<open>enum spdk_log_level\<close> lives in
  spdk/log.h, which is not part of the sources at hand. The spec orders the levels
  DISABLED, ERROR, WARN, NOTICE, INFO, DEBUG with increasing ordinal; log.c indexes the
  table of level names from \<open>SPDK_LOG_ERROR\<close> and asserts
  \<open>SPDK_LOG_DISABLED \<le> level \<le> SPDK_LOG_DEBUG\<close>, so DISABLED is the ordinal below
  ERROR's 0. \<open>level_val\<close> is the ordinal which the comparisons of log.c compare.
\<close>

datatype spdk_log_level =
    SPDK_LOG_DISABLED
  | SPDK_LOG_ERROR
  | SPDK_LOG_WARN
  | SPDK_LOG_NOTICE
  | SPDK_LOG_INFO
  | SPDK_LOG_DEBUG

fun level_val :: "spdk_log_level \<Rightarrow> int" where
  "level_val SPDK_LOG_DISABLED = - 1"
| "level_val SPDK_LOG_ERROR = 0"
| "level_val SPDK_LOG_WARN = 1"
| "level_val SPDK_LOG_NOTICE = 2"
| "level_val SPDK_LOG_INFO = 3"
| "level_val SPDK_LOG_DEBUG = 4"

text \<open>
  The table \<open>spdk_level_names\<close> has entries for ERROR to DEBUG only; index \<open>-1\<close> lies
  outside it.
\<close>

fun spdk_level_names :: "spdk_log_level \<Rightarrow> string option" where
  "spdk_level_names SPDK_LOG_ERROR = Some ''ERROR''"
| "spdk_level_names SPDK_LOG_WARN = Some ''WARNING''"
| "spdk_level_names SPDK_LOG_NOTICE = Some ''NOTICE''"
| "spdk_level_names SPDK_LOG_INFO = Some ''INFO''"
| "spdk_level_names SPDK_LOG_DEBUG = Some ''DEBUG''"
| "spdk_level_names SPDK_LOG_DISABLED = None"

text \<open>The severities of syslog.h.\<close>

definition LOG_ERR :: int where "LOG_ERR = 3"
definition LOG_WARNING :: int where "LOG_WARNING = 4"
definition LOG_NOTICE :: int where "LOG_NOTICE = 5"
definition LOG_INFO :: int where "LOG_INFO = 6"

fun spdk_log_to_syslog_level :: "spdk_log_level \<Rightarrow> int" where
  "spdk_log_to_syslog_level SPDK_LOG_DEBUG = LOG_INFO"
| "spdk_log_to_syslog_level SPDK_LOG_INFO = LOG_INFO"
| "spdk_log_to_syslog_level SPDK_LOG_NOTICE = LOG_NOTICE"
| "spdk_log_to_syslog_level SPDK_LOG_WARN = LOG_WARNING"
| "spdk_log_to_syslog_level SPDK_LOG_ERROR = LOG_ERR"
| "spdk_log_to_syslog_level SPDK_LOG_DISABLED = - 1"

subsection \<open>State\<close>

text \<open>
  \<open>struct ratelimit_state\<close>. The field \<open>begin\<close> is called \<open>begin_us\<close> here, since
  \<open>begin\<close> is a keyword. The spin lock is not a field of the model: what
  \<open>pthread_spin_trylock\<close> answers is an input of the call.
\<close>

record ratelimit_state =
  interval :: "32 word"
  burst :: "32 word"
  printed :: "32 word"
  missed :: "32 word"
  begin_us :: "64 word"

record log_state =
  g_log_timestamps :: bool
  g_spdk_log_level :: spdk_log_level
  g_spdk_log_print_level :: spdk_log_level
  g_rs :: ratelimit_state
  stderr_out :: "string list"
  syslog_out :: "(int \<times> string) list"

text \<open>
  \<open>stderr_out\<close> lists the texts written to standard error, one entry for each
  \<open>fprintf\<close>, oldest first; \<open>syslog_out\<close> lists the calls of \<open>syslog\<close> with
  their severity.
\<close>

record timespec =
  tv_sec :: "64 word"
  tv_nsec :: "64 word"

text \<open>
  One reading of the wall clock for a timestamp: the \<open>timespec\<close> of
  \<open>CLOCK_REALTIME\<close>, and what \<open>strftime\<close> renders from \<open>localtime\<close> of it with
  \<open>"%Y-%m-%d %H:%M:%S"\<close> (\<open>None\<close> when \<open>localtime\<close> returns \<open>NULL\<close>).
\<close>

record wall_reading =
  wall_ts :: timespec
  wall_date :: "string option"

record env =
  trylock_busy :: bool
  mono_first :: timespec
  mono_cur :: timespec
  wall_summary :: wall_reading
  wall_message :: wall_reading

text \<open>
  \<open>trylock_busy\<close>: \<open>pthread_spin_trylock\<close> returned non-zero. \<open>mono_first\<close> and
  \<open>mono_cur\<close>: the readings of \<open>CLOCK_MONOTONIC\<close> at lines 145 and 148 of log.c.
  \<open>wall_summary\<close> and \<open>wall_message\<close>: the wall clock when the summary line and
  when the message itself are stamped.
\<close>

subsection \<open>Configuration\<close>

definition spdk_log_set_level :: "spdk_log_level \<Rightarrow> log_state \<Rightarrow> log_state" where
  "spdk_log_set_level level w = w\<lparr>g_spdk_log_level := level\<rparr>"

definition spdk_log_set_print_level :: "spdk_log_level \<Rightarrow> log_state \<Rightarrow> log_state" where
  "spdk_log_set_print_level level w = w\<lparr>g_spdk_log_print_level := level\<rparr>"

definition spdk_log_enable_timestamps :: "bool \<Rightarrow> log_state \<Rightarrow> log_state" where
  "spdk_log_enable_timestamps v w = w\<lparr>g_log_timestamps := v\<rparr>"

definition VLOG_RATELIMIT_INTERVAL_DEFAULT :: "32 word" where
  "VLOG_RATELIMIT_INTERVAL_DEFAULT = 10"

definition VLOG_RATELIMIT_BURST_DEFAULT :: "32 word" where
  "VLOG_RATELIMIT_BURST_DEFAULT = 5000"

text \<open>
  The file-scope variables before any function of the module has run: static storage is
  zero (level ordinal 0 is ERROR), except for \<open>g_log_timestamps\<close>, initialised to
  true. Nothing has been written yet.
\<close>

definition static_state :: log_state where
  "static_state =
     \<lparr>g_log_timestamps = True, g_spdk_log_level = SPDK_LOG_ERROR,
      g_spdk_log_print_level = SPDK_LOG_ERROR,
      g_rs = \<lparr>interval = 0, burst = 0, printed = 0, missed = 0, begin_us = 0\<rparr>,
      stderr_out = [], syslog_out = []\<rparr>"

text \<open>The constructor \<open>spdk_log_ratelimit_init\<close>.\<close>

definition spdk_log_ratelimit_init :: "log_state \<Rightarrow> log_state" where
  "spdk_log_ratelimit_init w =
     w\<lparr>g_rs := (g_rs w)\<lparr>interval := VLOG_RATELIMIT_INTERVAL_DEFAULT,
                          burst := VLOG_RATELIMIT_BURST_DEFAULT\<rparr>\<rparr>"

definition initial_state :: log_state where
  "initial_state = spdk_log_ratelimit_init static_state"

definition spdk_log_ratelimit_set_interval :: "32 word \<Rightarrow> log_state \<Rightarrow> log_state" where
  "spdk_log_ratelimit_set_interval i w = w\<lparr>g_rs := (g_rs w)\<lparr>interval := i\<rparr>\<rparr>"

definition spdk_log_ratelimit_set_burst :: "32 word \<Rightarrow> log_state \<Rightarrow> log_state" where
  "spdk_log_ratelimit_set_burst b w = w\<lparr>g_rs := (g_rs w)\<lparr>burst := b\<rparr>\<rparr>"

subsection \<open>The conversions of printf that the module uses\<close>

definition digit_char :: "nat \<Rightarrow> char" where
  "digit_char d = ''0123456789abcdef'' ! d"

function dec_nat :: "nat \<Rightarrow> string" where
  "dec_nat n = (if n < 10 then [digit_char n] else dec_nat (n div 10) @ [digit_char (n mod 10)])"
  by pat_completeness auto
termination
  by (relation "measure id") auto

declare dec_nat.simps [simp del]

function hex_nat :: "nat \<Rightarrow> string" where
  "hex_nat n = (if n < 16 then [digit_char n] else hex_nat (n div 16) @ [digit_char (n mod 16)])"
  by pat_completeness auto
termination
  by (relation "measure id") auto

declare hex_nat.simps [simp del]

definition pad_left :: "char \<Rightarrow> nat \<Rightarrow> string \<Rightarrow> string" where
  "pad_left c width s = replicate (width - length s) c @ s"

text \<open>\<open>%d\<close>\<close>

definition fmt_d :: "int \<Rightarrow> string" where
  "fmt_d i = (if i < 0 then CHR ''-'' # dec_nat (nat (- i)) else dec_nat (nat i))"

text \<open>\<open>%4d\<close>: right-aligned in a field of at least four characters, filled with spaces.\<close>

definition fmt_4d :: "int \<Rightarrow> string" where
  "fmt_4d i = pad_left CHR '' '' 4 (fmt_d i)"

text \<open>\<open>%06ld\<close>: at least six characters, filled with zeros after the sign.\<close>

definition fmt_06ld :: "int \<Rightarrow> string" where
  "fmt_06ld i =
     (if i < 0 then CHR ''-'' # pad_left CHR ''0'' 5 (dec_nat (nat (- i)))
      else pad_left CHR ''0'' 6 (dec_nat (nat i)))"

text \<open>\<open>%08x\<close> and \<open>%2.2x\<close> of an unsigned value.\<close>

definition fmt_08x :: "nat \<Rightarrow> string" where
  "fmt_08x n = pad_left CHR ''0'' 8 (hex_nat n)"

definition fmt_2_2x :: "nat \<Rightarrow> string" where
  "fmt_2_2x n = pad_left CHR ''0'' 2 (hex_nat n)"

text \<open>
  \<open>snprintf(buf, size, ...)\<close> read back as a C string: the rendering cut to
  \<open>size - 1\<close> characters.
\<close>

definition snprintf :: "nat \<Rightarrow> string \<Rightarrow> string" where
  "snprintf n s = take (n - 1) s"

subsection \<open>Clocks and the timestamp prefix\<close>

definition get_current_system_time :: "timespec \<Rightarrow> 64 word" where
  "get_current_system_time ts =
     tv_sec ts * 1000000 + word_of_int (sint (tv_nsec ts) sdiv 1000)"

definition get_timestamp_prefix :: "log_state \<Rightarrow> wall_reading \<Rightarrow> nat \<Rightarrow> string" where
  "get_timestamp_prefix w r buf_size =
     (if \<not> g_log_timestamps w then []
      else
        let usec = sint (tv_nsec (wall_ts r)) sdiv 1000 in
        case wall_date r of
          None \<Rightarrow> snprintf buf_size (''['' @ ''unknown date'' @ ''.'' @ fmt_06ld usec @ ''] '')
        | Some date \<Rightarrow> snprintf buf_size (''['' @ date @ ''.'' @ fmt_06ld usec @ ''] ''))"

subsection \<open>The rate gate\<close>

text \<open>
  Lines 144 to 159 of \<open>log_print_ratelimit\<close>: start the window at the first call, and
  roll it over once it has elapsed, with one summary line on standard error when
  messages were suppressed. The product \<open>g_rs.interval * 1000000\<close> is computed in
  \<open>int\<close> and then widened for the sum with \<open>begin\<close>.
\<close>

text \<open>The summary line of line 152, the comparison of line 149.\<close>

definition ratelimit_summary :: "log_state \<Rightarrow> wall_reading \<Rightarrow> string" where
  "ratelimit_summary w r =
     get_timestamp_prefix w r 64 @ '': '' @ fmt_d (sint (missed (g_rs w)))
       @ '' log messages suppressed, '' @ fmt_d (sint (printed (g_rs w))) @ '' printed'' @ [CHR 0x0A]"

definition window_elapsed :: "ratelimit_state \<Rightarrow> 64 word \<Rightarrow> bool" where
  "window_elapsed rs cur_time \<longleftrightarrow>
     begin_us rs + scast (interval rs * 1000000) <s cur_time"

definition ratelimit_window :: "env \<Rightarrow> log_state \<Rightarrow> log_state" where
  "ratelimit_window e w =
     (let w1 = (if begin_us (g_rs w) = 0
                then w\<lparr>g_rs := (g_rs w)\<lparr>begin_us := get_current_system_time (mono_first e)\<rparr>\<rparr>
                else w);
          cur_time = get_current_system_time (mono_cur e)
      in if window_elapsed (g_rs w1) cur_time
         then
           (let w2 = (if missed (g_rs w1) \<noteq> 0
                      then w1\<lparr>stderr_out := stderr_out w1 @ [ratelimit_summary w1 (wall_summary e)],
                              g_rs := (g_rs w1)\<lparr>missed := 0\<rparr>\<rparr>
                      else w1)
            in w2\<lparr>g_rs := (g_rs w2)\<lparr>begin_us := cur_time, printed := 0\<rparr>\<rparr>)
         else w1)"

text \<open>
  The start of the window that a call compares the clock with: \<open>begin\<close>, or the
  first reading of the clock when \<open>begin\<close> is still 0 (lines 144 to 146).
\<close>

definition window_start :: "env \<Rightarrow> log_state \<Rightarrow> 64 word" where
  "window_start e w =
     (if begin_us (g_rs w) = 0 then get_current_system_time (mono_first e) else begin_us (g_rs w))"

text \<open>Lines 161 to 167: the decision, and its accounting.\<close>

definition ratelimit_decide :: "log_state \<Rightarrow> bool \<times> log_state" where
  "ratelimit_decide w =
     (if burst (g_rs w) \<noteq> 0 \<and> printed (g_rs w) <s burst (g_rs w)
      then (True, w\<lparr>g_rs := (g_rs w)\<lparr>printed := printed (g_rs w) + 1\<rparr>\<rparr>)
      else (False, w\<lparr>g_rs := (g_rs w)\<lparr>missed := missed (g_rs w) + 1\<rparr>\<rparr>))"

definition log_print_ratelimit :: "env \<Rightarrow> log_state \<Rightarrow> bool \<times> log_state" where
  "log_print_ratelimit e w =
     (if interval (g_rs w) = 0 then (False, w)
      else if trylock_busy e then (True, w)
      else ratelimit_decide (ratelimit_window e w))"

subsection \<open>Sequences of operations on the limiter\<close>

datatype rl_op = Gate env | Set_interval "32 word" | Set_burst "32 word"

fun rl_step :: "rl_op \<Rightarrow> log_state \<Rightarrow> log_state" where
  "rl_step (Gate e) w = snd (log_print_ratelimit e w)"
| "rl_step (Set_interval i) w = spdk_log_ratelimit_set_interval i w"
| "rl_step (Set_burst b) w = spdk_log_ratelimit_set_burst b w"

definition rl_run :: "rl_op list \<Rightarrow> log_state \<Rightarrow> log_state" where
  "rl_run ops w = fold rl_step ops w"

text \<open>The invariant of the data model: \<open>printed \<le> burst\<close> whenever \<open>burst > 0\<close>.\<close>

definition burst_inv :: "ratelimit_state \<Rightarrow> bool" where
  "burst_inv rs \<longleftrightarrow> (0 <s burst rs \<longrightarrow> printed rs \<le>s burst rs)"

text \<open>
  A sequence of operations in which no call of \<open>spdk_log_ratelimit_set_burst\<close> sets a
  positive burst below the number already printed in the window.
\<close>

fun burst_kept :: "rl_op \<Rightarrow> log_state \<Rightarrow> bool" where
  "burst_kept (Set_burst b) w \<longleftrightarrow> (0 <s b \<longrightarrow> printed (g_rs w) \<le>s b)"
| "burst_kept _ w \<longleftrightarrow> True"

fun bursts_kept :: "rl_op list \<Rightarrow> log_state \<Rightarrow> bool" where
  "bursts_kept [] w \<longleftrightarrow> True"
| "bursts_kept (x # xs) w \<longleftrightarrow> burst_kept x w \<and> bursts_kept xs (rl_step x w)"

text \<open>Calls of the gate one after the other, with their decisions.\<close>

fun gate_run :: "env list \<Rightarrow> log_state \<Rightarrow> bool list \<times> log_state" where
  "gate_run [] w = ([], w)"
| "gate_run (e # es) w =
     (case log_print_ratelimit e w of
        (r, w1) \<Rightarrow> (case gate_run es w1 of (rs, w2) \<Rightarrow> (r # rs, w2)))"

subsection \<open>Calls within one window\<close>

text \<open>
  A clock reading \<open>t\<close> lies in the window of \<open>i\<close> seconds that starts at \<open>start\<close>.
\<close>

definition in_window :: "64 word \<Rightarrow> 32 word \<Rightarrow> 64 word \<Rightarrow> bool" where
  "in_window start i t \<longleftrightarrow> sint start \<le> sint t \<and> sint t \<le> sint start + sint i * 1000000"

text \<open>How many more messages the current window lets through.\<close>

definition room :: "ratelimit_state \<Rightarrow> nat" where
  "room rs = nat (sint (burst rs) - sint (printed rs))"

text \<open>
  A state whose window, if it has started, started within \<open>i\<close> seconds after \<open>T\<close>,
  with an interval whose microseconds fit an \<open>int\<close> and a positive burst; and a call
  of the gate that finds the lock free and reads the clock within that window.
\<close>

definition same_window :: "64 word \<Rightarrow> log_state \<Rightarrow> bool" where
  "same_window T w \<longleftrightarrow>
     0 <s interval (g_rs w) \<and> sint (interval (g_rs w)) \<le> 2147 \<and> 0 <s burst (g_rs w)
     \<and> 0 \<le> sint T \<and> sint T < 2 ^ 62
     \<and> (begin_us (g_rs w) = 0 \<or> in_window T (interval (g_rs w)) (begin_us (g_rs w)))"

definition call_in_window :: "64 word \<Rightarrow> 32 word \<Rightarrow> env \<Rightarrow> bool" where
  "call_in_window T i e \<longleftrightarrow>
     \<not> trylock_busy e
     \<and> in_window T i (get_current_system_time (mono_first e))
     \<and> in_window T i (get_current_system_time (mono_cur e))"

subsection \<open>Dispatch\<close>

text \<open>
  An override installed with \<open>spdk_log_open\<close> receives the arguments of the call as
  they are. Its type mentions the state it may act on, so \<open>g_log\<close> is an argument of
  \<open>spdk_vlog\<close> rather than a field of \<open>log_state\<close>. The arguments \<open>ap\<close> of the
  format are of any type \<open>'a\<close>; \<open>vfmt format ap\<close> is what the C library renders from
  them, and \<open>vsnprintf\<close> into the buffer of \<open>MAX_TMPBUF\<close> bytes keeps its first 1023
  characters.
\<close>

type_synonym 'a logfunc =
  "spdk_log_level \<Rightarrow> string option \<Rightarrow> 32 word \<Rightarrow> string \<Rightarrow> string \<Rightarrow> 'a \<Rightarrow> log_state \<Rightarrow> log_state"

definition MAX_TMPBUF :: nat where
  "MAX_TMPBUF = 1024"

text \<open>Line 269: the level exceeds both thresholds.\<close>

definition level_filtered :: "log_state \<Rightarrow> spdk_log_level \<Rightarrow> bool" where
  "level_filtered w level \<longleftrightarrow>
     level_val level > level_val (g_spdk_log_print_level w)
     \<and> level_val level > level_val (g_spdk_log_level w)"

text \<open>
  \<open>spdk_level_names[level]\<close>. The dispatch reads it for ERROR to DEBUG only, having
  returned before for DISABLED.
\<close>

definition level_name :: "spdk_log_level \<Rightarrow> string" where
  "level_name level = (case spdk_level_names level of Some n \<Rightarrow> n | None \<Rightarrow> [])"

text \<open>The text after the timestamp: \<open>"%s:%4d:%s: *%s*: %s"\<close>, or the bare message.\<close>

definition log_line :: "spdk_log_level \<Rightarrow> string option \<Rightarrow> 32 word \<Rightarrow> string \<Rightarrow> string \<Rightarrow> string" where
  "log_line level file line func buf =
     (case file of
        Some f \<Rightarrow> f @ '':'' @ fmt_4d (sint line) @ '':'' @ func @ '': *'' @ level_name level
                    @ ''*: '' @ buf
      | None \<Rightarrow> buf)"

text \<open>
  Lines 285 to 300: the message goes to standard error if the print threshold admits its
  level, and to the system log if the log threshold does.
\<close>

definition emit :: "env \<Rightarrow> spdk_log_level \<Rightarrow> string option \<Rightarrow> 32 word \<Rightarrow> string \<Rightarrow> string
    \<Rightarrow> log_state \<Rightarrow> log_state" where
  "emit e level file line func buf w =
     (let w1 = (if level_val level \<le> level_val (g_spdk_log_print_level w)
                then w\<lparr>stderr_out := stderr_out w
                        @ [get_timestamp_prefix w (wall_message e) 64 @ log_line level file line func buf]\<rparr>
                else w)
      in if level_val level \<le> level_val (g_spdk_log_level w1)
         then w1\<lparr>syslog_out := syslog_out w1
                 @ [(spdk_log_to_syslog_level level, log_line level file line func buf)]\<rparr>
         else w1)"

definition spdk_vlog :: "(string \<Rightarrow> 'a \<Rightarrow> string) \<Rightarrow> 'a logfunc option \<Rightarrow> env
    \<Rightarrow> spdk_log_level \<Rightarrow> string option \<Rightarrow> 32 word \<Rightarrow> string \<Rightarrow> string \<Rightarrow> 'a
    \<Rightarrow> log_state \<Rightarrow> log_state" where
  "spdk_vlog vfmt g_log e level file line func format ap w =
     (case g_log of
        Some logf \<Rightarrow> logf level file line func format ap w
      | None \<Rightarrow>
          if level_filtered w level then w
          else if spdk_log_to_syslog_level level < 0 then w
          else
            (case log_print_ratelimit e w of
               (False, w1) \<Rightarrow> w1
             | (True, w1) \<Rightarrow> emit e level file line func (snprintf MAX_TMPBUF (vfmt format ap)) w1))"

text \<open>
  The console line as the spec words its template,
  \<open>"<timestamp><file>:<line>:<func>: *<LEVELNAME>*: <message>"\<close>, with the line
  number as a plain decimal. It is what the dispatch is compared with.
\<close>

definition spec_console_line :: "string \<Rightarrow> string \<Rightarrow> int \<Rightarrow> string \<Rightarrow> string \<Rightarrow> string \<Rightarrow> string" where
  "spec_console_line timestamp file line func levelname message =
     timestamp @ file @ '':'' @ fmt_d line @ '':'' @ func @ '': *'' @ levelname @ ''*: '' @ message"

subsection \<open>The hex dump\<close>

text \<open>
  \<open>fdump\<close> builds each row in \<open>tmpbuf\<close> with \<open>snprintf\<close> at the offset
  \<open>total\<close>, keeps the printable form of the row in \<open>buf16\<close>, and writes a finished
  row to \<open>fp\<close>. The state of its loops is a record: \<open>tmpbuf\<close> as the C string it
  holds, \<open>buf16\<close> as its 17 bytes, \<open>total\<close> (called \<open>total_len\<close> here, since
  \<open>total\<close> is a constant of the library), and the texts written to \<open>fp\<close> so far, one for each
  \<open>fprintf\<close>.
\<close>

definition NUL :: char where
  "NUL = CHR 0x00"

text \<open>A byte array read as a C string: up to the first zero byte.\<close>

definition cstr :: "char list \<Rightarrow> string" where
  "cstr a = takeWhile (\<lambda>c. c \<noteq> NUL) a"

text \<open>\<open>isprint\<close> in the C locale, and a byte as a character.\<close>

definition isprint :: "8 word \<Rightarrow> bool" where
  "isprint b \<longleftrightarrow> 0x20 \<le> b \<and> b \<le> 0x7e"

definition byte_char :: "8 word \<Rightarrow> char" where
  "byte_char b = char_of (unat b)"

record fdump_state =
  tmpbuf :: string
  buf16 :: "char list"
  total_len :: nat
  fp :: "string list"

text \<open>
  \<open>snprintf(tmpbuf + off, sizeof tmpbuf - off, ...)\<close> of a text \<open>s\<close>: the string
  then held by \<open>tmpbuf\<close>, and the value returned, which is the length of \<open>s\<close> whether
  or not it was cut. The text is cut to what fits before the end of the buffer. If the
  string in \<open>tmpbuf\<close> ended before \<open>off\<close>, it still ends there.
\<close>

definition snprintf_at :: "string \<Rightarrow> nat \<Rightarrow> string \<Rightarrow> string \<times> nat" where
  "snprintf_at tmp off s =
     (if off \<le> length tmp then take off tmp @ take (MAX_TMPBUF - off - 1) s else tmp, length s)"

text \<open>\<open>total += snprintf(tmpbuf + total, sizeof tmpbuf - total, ...)\<close>\<close>

definition put :: "string \<Rightarrow> fdump_state \<Rightarrow> fdump_state" where
  "put s st =
     (case snprintf_at (tmpbuf st) (total_len st) s of
        (t, n) \<Rightarrow> st\<lparr>tmpbuf := t, total_len := total_len st + n\<rparr>)"

text \<open>Lines 317 to 321: the ASCII column is appended, the row written, the buffers reset.\<close>

definition flush_row :: "fdump_state \<Rightarrow> fdump_state" where
  "flush_row st =
     (case snprintf_at (tmpbuf st) (total_len st) ('' '' @ cstr (buf16 st)) of
        (t, n) \<Rightarrow> st\<lparr>tmpbuf := t, buf16 := replicate 17 NUL, fp := fp st @ [t @ [CHR 0x0A]],
                     total_len := 0\<rparr>)"

text \<open>The body of the first loop, lines 316 to 333, for index \<open>idx\<close> and byte \<open>b\<close>.\<close>

definition fdump_byte :: "32 word \<Rightarrow> 8 word \<Rightarrow> fdump_state \<Rightarrow> fdump_state" where
  "fdump_byte idx b st =
     (let s1 = (if idx \<noteq> 0 \<and> idx mod 16 = 0 then flush_row st else st);
          s2 = (if idx mod 16 = 0 then put (fmt_08x (unat idx) @ '' '') s1 else s1);
          s3 = (if idx mod 8 = 0 then put '' '' s2 else s2);
          s4 = put (fmt_2_2x (unat (and b 0xff)) @ '' '') s3
      in s4\<lparr>buf16 := (buf16 s4)[unat (idx mod 16) := (if isprint b then byte_char b else CHR ''.'')]\<rparr>)"

text \<open>
  The first loop. Its counter is an \<open>unsigned int\<close> compared with a \<open>size_t\<close>, so on
  a buffer of \<open>2 ^ 32\<close> bytes or more it wraps around and the loop does not end.
\<close>

partial_function (option) fdump_loop ::
    "8 word list \<Rightarrow> 32 word \<Rightarrow> fdump_state \<Rightarrow> (32 word \<times> fdump_state) option" where
  "fdump_loop buf idx st =
     (if unat idx < length buf
      then fdump_loop buf (idx + 1) (fdump_byte idx (buf ! unat idx) st)
      else Some (idx, st))"

declare fdump_loop.simps [code]

text \<open>The second loop, lines 335 to 342, fills the last row up to sixteen columns.\<close>

function fdump_pad :: "32 word \<Rightarrow> fdump_state \<Rightarrow> fdump_state" where
  "fdump_pad idx st =
     (if idx mod 16 \<noteq> 0
      then fdump_pad (idx + 1) (put ''   '' (if idx = 8 then put '' '' st else st))
      else st)"
  by pat_completeness auto
termination
proof (relation "measure (\<lambda>(idx, st). (16 - unat idx mod 16) mod 16)")
  show "wf (measure (\<lambda>(idx :: 32 word, st :: fdump_state). (16 - unat idx mod 16) mod 16))"
    by simp
next
  fix idx :: "32 word" and st :: fdump_state
  assume a: "idx mod 16 \<noteq> 0"
  have m: "unat (idx mod 16) = unat idx mod 16" by (simp add: unat_mod)
  from a have "unat (idx mod 16) \<noteq> 0" by (simp add: unat_eq_0)
  with m have r: "unat idx mod 16 \<noteq> 0" by simp
  have "unat (idx + 1) = (unat idx + 1) mod 2 ^ 32"
    by (simp add: unat_word_ariths)
  then have "unat (idx + 1) mod 16 = (unat idx + 1) mod 16"
    by (simp add: mod_mod_cancel)
  moreover have "unat idx mod 16 < 16" by simp
  ultimately show "((idx + 1, put ''   '' (if idx = 8 then put '' '' st else st)), idx, st)
      \<in> measure (\<lambda>(idx, st). (16 - unat idx mod 16) mod 16)"
    using r by (simp add: mod_Suc) arith
qed

declare fdump_pad.simps [simp del]

text \<open>
  \<open>fdump\<close> returns what it has written to \<open>fp\<close>, starting with the label, and
  \<open>None\<close> if its first loop does not end.
\<close>

definition fdump :: "string \<Rightarrow> 8 word list \<Rightarrow> string list option" where
  "fdump label buf =
     (case fdump_loop buf 0
             \<lparr>tmpbuf = [], buf16 = replicate 17 NUL, total_len = 0, fp = [label @ [CHR 0x0A]]\<rparr> of
        None \<Rightarrow> None
      | Some (idx, st) \<Rightarrow>
          (let s1 = fdump_pad idx st;
               t = fst (snprintf_at (tmpbuf s1) (total_len s1) (''  '' @ cstr (buf16 s1)))
           in Some (fp s1 @ [t @ [CHR 0x0A]])))"

definition spdk_log_dump :: "string \<Rightarrow> 8 word list \<Rightarrow> string list option" where
  "spdk_log_dump label buf = fdump label buf"

subsection \<open>The layout of the hex dump, row by row\<close>

text \<open>
  A byte column is two hex digits and a space; a group of eight columns is preceded by
  a space.
\<close>

definition byte_cell :: "8 word \<Rightarrow> string" where
  "byte_cell b = fmt_2_2x (unat b) @ '' ''"

fun hex_cols :: "nat \<Rightarrow> 8 word list \<Rightarrow> string" where
  "hex_cols i [] = []"
| "hex_cols i (b # bs) = (if i mod 8 = 0 then '' '' else []) @ byte_cell b @ hex_cols (Suc i) bs"

text \<open>The ASCII column: printable bytes as they are, the others as a dot.\<close>

definition ascii_col :: "8 word list \<Rightarrow> string" where
  "ascii_col bs = map (\<lambda>b. if isprint b then byte_char b else CHR ''.'') bs"

text \<open>
  What the second loop appends from index \<open>idx\<close> on in \<open>k\<close> rounds, and for a
  buffer of \<open>len\<close> bytes.
\<close>

fun pad_from :: "nat \<Rightarrow> nat \<Rightarrow> string" where
  "pad_from idx 0 = []"
| "pad_from idx (Suc k) = (if idx = 8 then '' '' else []) @ ''   '' @ pad_from (Suc idx) k"

definition fdump_padding :: "nat \<Rightarrow> string" where
  "fdump_padding len = pad_from len ((16 - len mod 16) mod 16)"

text \<open>
  A row that is followed by another: the offset in eight hex digits and a space, the
  sixteen byte columns in two groups, a space, the ASCII column. The last row: the same
  start for the bytes it has, then the padding, two spaces and the ASCII column; for an
  empty buffer it has neither offset nor bytes.
\<close>

definition full_row :: "nat \<Rightarrow> 8 word list \<Rightarrow> string" where
  "full_row off bs = fmt_08x off @ '' '' @ hex_cols 0 bs @ '' '' @ ascii_col bs @ [CHR 0x0A]"

definition last_row :: "string \<Rightarrow> nat \<Rightarrow> 8 word list \<Rightarrow> string" where
  "last_row pad off bs =
     (if bs = [] then [] else fmt_08x off @ '' '' @ hex_cols 0 bs)
       @ pad @ ''  '' @ ascii_col bs @ [CHR 0x0A]"

text \<open>The rows of a buffer, sixteen bytes each, the last one with the padding \<open>pad\<close>.\<close>

function dump_rows :: "string \<Rightarrow> nat \<Rightarrow> 8 word list \<Rightarrow> string list" where
  "dump_rows pad off bs =
     (if length bs \<le> 16 then [last_row pad off bs]
      else full_row off (take 16 bs) # dump_rows pad (off + 16) (drop 16 bs))"
  by pat_completeness auto
termination
  by (relation "measure (\<lambda>(pad, off, bs). length bs)") auto

declare dump_rows.simps [simp del]

text \<open>
  The state of the first loop in terms of the row under construction, and the state
  after \<open>n > 0\<close> bytes of the buffer.
\<close>

definition mk_state :: "string \<Rightarrow> string \<Rightarrow> string list \<Rightarrow> fdump_state" where
  "mk_state t a out =
     \<lparr>tmpbuf = t, buf16 = a @ replicate (17 - length a) NUL, total_len = length t, fp = out\<rparr>"

definition row_state :: "string \<Rightarrow> 8 word list \<Rightarrow> nat \<Rightarrow> fdump_state" where
  "row_state label buf n =
     mk_state
       (fmt_08x (16 * ((n - 1) div 16)) @ '' '' @ hex_cols 0 (drop (16 * ((n - 1) div 16)) (take n buf)))
       (ascii_col (drop (16 * ((n - 1) div 16)) (take n buf)))
       ((label @ [CHR 0x0A])
          # map (\<lambda>j. full_row (16 * j) (take 16 (drop (16 * j) buf))) [0..<(n - 1) div 16])"

subsection \<open>Concrete inputs for the worked examples\<close>

text \<open>The state at start with print threshold WARN and log threshold DISABLED.\<close>

definition ex_state :: log_state where
  "ex_state = spdk_log_set_print_level SPDK_LOG_WARN
     (spdk_log_set_level SPDK_LOG_DISABLED initial_state)"

definition ex_wall :: wall_reading where
  "ex_wall = \<lparr>wall_ts = \<lparr>tv_sec = 1700000000, tv_nsec = 123456789\<rparr>,
     wall_date = Some ''2023-11-14 22:13:20''\<rparr>"

text \<open>Both readings of the monotonic clock fall on second \<open>s\<close>; the lock is free.\<close>

definition ex_env :: "64 word \<Rightarrow> env" where
  "ex_env s = \<lparr>trylock_busy = False, mono_first = \<lparr>tv_sec = s, tv_nsec = 0\<rparr>,
     mono_cur = \<lparr>tv_sec = s, tv_nsec = 0\<rparr>, wall_summary = ex_wall, wall_message = ex_wall\<rparr>"

text \<open>A format without conversions renders as itself.\<close>

definition ex_vfmt :: "string \<Rightarrow> unit \<Rightarrow> string" where
  "ex_vfmt format ap = format"

text \<open>An override that files each call, unformatted, under the ordinal of its level.\<close>

definition ex_override :: "unit logfunc" where
  "ex_override level file line func format ap w =
     w\<lparr>syslog_out := syslog_out w @ [(level_val level, format)]\<rparr>"

text \<open>Print threshold WARN, log threshold DISABLED, interval 0.\<close>

definition quirk_state :: log_state where
  "quirk_state = spdk_log_ratelimit_set_interval 0 ex_state"

text \<open>
  A window that began at second 1 with the default interval and burst, its budget
  used up and three messages suppressed.
\<close>

definition busy_state :: log_state where
  "busy_state = ex_state\<lparr>g_rs := \<lparr>interval = 10, burst = 5000, printed = 5000, missed = 3,
     begin_us = 1000000\<rparr>\<rparr>"

text \<open>The same with print threshold DISABLED and log threshold DEBUG.\<close>

definition syslog_only_state :: log_state where
  "syslog_only_state = spdk_log_set_print_level SPDK_LOG_DISABLED
     (spdk_log_set_level SPDK_LOG_DEBUG busy_state)"

text \<open>The state at start after \<open>spdk_log_ratelimit_set_interval(i)\<close> and
  \<open>spdk_log_ratelimit_set_burst(1)\<close>.\<close>

definition one_per_window :: "32 word \<Rightarrow> log_state" where
  "one_per_window i = spdk_log_ratelimit_set_burst 1 (spdk_log_ratelimit_set_interval i initial_state)"


definition overflow_state :: log_state where
  "overflow_state = spdk_log_ratelimit_set_interval 2148 syslog_only_state"



text \<open>Seventeen bytes: fourteen printable ones, a line feed, a delete, and an \<open>@\<close>.\<close>

definition buf17 :: "8 word list" where
  "buf17 = [0x30, 0x31, 0x32, 0x33, 0x34, 0x35, 0x36, 0x37, 0x38, 0x39, 0x3a, 0x3b, 0x3c, 0x3d,
            0x0a, 0x7f, 0x40]"

text \<open>Three bytes, \<open>abc\<close>.\<close>

definition buf3 :: "8 word list" where
  "buf3 = [0x61, 0x62, 0x63]"

section \<open>Properties\<close>

lemmas ex_defs =
  ex_state_def quirk_state_def initial_state_def static_state_def
  spdk_log_ratelimit_init_def spdk_log_set_level_def spdk_log_set_print_level_def
  spdk_log_ratelimit_set_interval_def spdk_log_ratelimit_set_burst_def
  VLOG_RATELIMIT_INTERVAL_DEFAULT_def VLOG_RATELIMIT_BURST_DEFAULT_def
  ex_env_def ex_wall_def ex_vfmt_def busy_state_def syslog_only_state_def one_per_window_def

lemmas gate_defs =
  log_print_ratelimit_def ratelimit_window_def ratelimit_decide_def window_elapsed_def
  window_start_def get_current_system_time_def rl_run_def Let_def

lemmas vlog_defs =
  spdk_vlog_def emit_def log_line_def level_name_def level_filtered_def get_timestamp_prefix_def
  ratelimit_summary_def MAX_TMPBUF_def LOG_ERR_def LOG_WARNING_def LOG_NOTICE_def LOG_INFO_def

subsection \<open>Evaluating the conversions\<close>

text \<open>
  The recursive equations of \<open>dec_nat\<close> and \<open>hex_nat\<close> as conditional rules, which
  rewrite a numeral and leave a variable alone.
\<close>

lemma dec_nat_small: "n < 10 \<Longrightarrow> dec_nat n = [digit_char n]"
  by (simp add: dec_nat.simps)

lemma dec_nat_large: "\<not> n < 10 \<Longrightarrow> dec_nat n = dec_nat (n div 10) @ [digit_char (n mod 10)]"
  by (subst dec_nat.simps) simp

lemma hex_nat_small: "n < 16 \<Longrightarrow> hex_nat n = [digit_char n]"
  by (simp add: hex_nat.simps)

lemma hex_nat_large: "\<not> n < 16 \<Longrightarrow> hex_nat n = hex_nat (n div 16) @ [digit_char (n mod 16)]"
  by (subst hex_nat.simps) simp

lemma replicate_numeral: "replicate (numeral k) x = x # replicate (pred_numeral k) x"
  by (simp add: numeral_eq_Suc)

lemmas fmt_defs =
  replicate_numeral fmt_d_def fmt_4d_def fmt_06ld_def fmt_08x_def fmt_2_2x_def pad_left_def digit_char_def
  dec_nat_small dec_nat_large hex_nat_small hex_nat_large snprintf_def signed_divide_int_def

subsection \<open>Signed arithmetic of the limiter\<close>


lemma sint_scast_32_64: "sint (scast (x :: 32 word) :: 64 word) = sint x"
  by (rule sint_up_scast) (simp add: is_up)

lemma sint_succ_below:
  fixes x y :: "32 word"
  assumes "x <s y"
  shows "sint (x + 1) = sint x + 1"
proof -
  have "sint x < sint y" using assms by (simp add: word_sless_alt)
  moreover have "sint y < 2 ^ 31" using sint_lt [of y] by simp
  moreover have "- (2 ^ 31) \<le> sint x" using sint_ge [of x] by simp
  ultimately have "signed_take_bit 31 (sint x + 1) = sint x + 1"
    by (intro signed_take_bit_int_eq_self) simp_all
  then show ?thesis by (simp add: sint_word_add)
qed


lemma summary_begin_us [simp]:
  "ratelimit_summary (w\<lparr>g_rs := (g_rs w)\<lparr>begin_us := b\<rparr>\<rparr>) r = ratelimit_summary w r"
  by (simp add: ratelimit_summary_def get_timestamp_prefix_def)

lemma missed_zero_update: "missed rs = 0 \<Longrightarrow> rs\<lparr>missed := 0\<rparr> = rs"
  by (cases rs) simp

subsection \<open>Window rollover\<close>

text \<open>
  Lines 149 to 159 when the comparison of line 149 holds, and the decision of lines 161
  to 167 on a window that has just begun.
\<close>

lemma rollover_elapsed:
  assumes "interval (g_rs w) \<noteq> 0" and "\<not> trylock_busy e"
    and "window_elapsed ((g_rs w)\<lparr>begin_us := window_start e w\<rparr>)
           (get_current_system_time (mono_cur e))"
  shows "ratelimit_window e w =
           w\<lparr>stderr_out := stderr_out w
                  @ (if missed (g_rs w) \<noteq> 0 then [ratelimit_summary w (wall_summary e)] else []),
             g_rs := (g_rs w)\<lparr>missed := 0, begin_us := get_current_system_time (mono_cur e),
                              printed := 0\<rparr>\<rparr>"
  using assms(3)
  by (auto simp: ratelimit_window_def window_start_def Let_def missed_zero_update
      split: if_splits)

lemma decide_fresh:
  assumes "printed (g_rs w) = 0" and "missed (g_rs w) = 0"
  shows "ratelimit_decide w =
           (0 <s burst (g_rs w),
            w\<lparr>g_rs := (g_rs w)\<lparr>missed := (if 0 <s burst (g_rs w) then 0 else 1),
                             printed := (if 0 <s burst (g_rs w) then 1 else 0)\<rparr>\<rparr>)"
  using assms by (auto simp: ratelimit_decide_def missed_zero_update)







text \<open>
  C10. A call without override that passes the thresholds and reaches the gate at a
  rollover (the interval is not 0, the lock is free, the comparison of line 149 holds,
  be it by the passing of time or by the wrap-around of its product) with
  \<open>missed > 0\<close> puts the summary line on standard error whatever the two thresholds
  are; the message itself follows only if the gate allows it and the print threshold
  admits its level. In the worked examples the print threshold is DISABLED and the
  NOTICE message goes to the system log alone, yet standard error receives the summary:
  once twelve seconds into a window of ten, once at the very start of a window of 2148
  seconds.
\<close>

theorem summary_ignores_thresholds:
  assumes "\<not> level_filtered w level" and "level \<noteq> SPDK_LOG_DISABLED"
    and "interval (g_rs w) \<noteq> 0" and "\<not> trylock_busy e"
    and "window_elapsed ((g_rs w)\<lparr>begin_us := window_start e w\<rparr>)
           (get_current_system_time (mono_cur e))"
    and "0 <s missed (g_rs w)"
  shows "stderr_out (spdk_vlog vfmt None e level file line func format ap w)
           = stderr_out w @ ratelimit_summary w (wall_summary e)
               # (if 0 <s burst (g_rs w) \<and> level_val level \<le> level_val (g_spdk_log_print_level w)
                  then [get_timestamp_prefix w (wall_message e) 64
                          @ log_line level file line func (snprintf MAX_TMPBUF (vfmt format ap))]
                  else [])"
proof -
  have m: "missed (g_rs w) \<noteq> 0" using assms(6) by auto
  have s: "0 \<le> spdk_log_to_syslog_level level"
    using assms(2) by (cases level) (simp_all add: LOG_ERR_def LOG_WARNING_def LOG_NOTICE_def LOG_INFO_def)
  have gate: "log_print_ratelimit e w = ratelimit_decide (ratelimit_window e w)"
    using assms(3,4) by (simp add: log_print_ratelimit_def)
  show ?thesis
    using assms(1) m s
    by (simp add: spdk_vlog_def gate rollover_elapsed [OF assms(3,4,5)] decide_fresh
        emit_def get_timestamp_prefix_def Let_def)
qed

theorem summary_ignores_thresholds_witness:
  "\<not> level_filtered syslog_only_state SPDK_LOG_NOTICE
   \<and> g_spdk_log_print_level syslog_only_state = SPDK_LOG_DISABLED
   \<and> interval (g_rs syslog_only_state) \<noteq> 0 \<and> \<not> trylock_busy (ex_env 12)
   \<and> window_elapsed ((g_rs syslog_only_state)\<lparr>begin_us := window_start (ex_env 12) syslog_only_state\<rparr>)
         (get_current_system_time (mono_cur (ex_env 12)))
   \<and> 0 <s missed (g_rs syslog_only_state)
   \<and> stderr_out (spdk_vlog ex_vfmt None (ex_env 12) SPDK_LOG_NOTICE (Some ''bdev.c'') 7
         ''open'' ''ready'' () syslog_only_state)
       = [''[2023-11-14 22:13:20.123456] : 3 log messages suppressed, 5000 printed'' @ [CHR 0x0A]]
   \<and> interval (g_rs overflow_state) = 2148
   \<and> g_spdk_log_print_level overflow_state = SPDK_LOG_DISABLED
   \<and> window_start (ex_env 1) overflow_state = get_current_system_time (mono_cur (ex_env 1))
   \<and> window_elapsed ((g_rs overflow_state)\<lparr>begin_us := window_start (ex_env 1) overflow_state\<rparr>)
         (get_current_system_time (mono_cur (ex_env 1)))
   \<and> stderr_out (spdk_vlog ex_vfmt None (ex_env 1) SPDK_LOG_NOTICE (Some ''bdev.c'') 7
         ''open'' ''ready'' () overflow_state)
       = [''[2023-11-14 22:13:20.123456] : 3 log messages suppressed, 5000 printed'' @ [CHR 0x0A]]"
proof -
  have f: "\<not> level_filtered syslog_only_state SPDK_LOG_NOTICE"
    and p: "g_spdk_log_print_level syslog_only_state = SPDK_LOG_DISABLED"
    and a: "interval (g_rs syslog_only_state) \<noteq> 0" and b: "\<not> trylock_busy (ex_env 12)"
    and c: "window_elapsed ((g_rs syslog_only_state)\<lparr>begin_us := window_start (ex_env 12) syslog_only_state\<rparr>)
         (get_current_system_time (mono_cur (ex_env 12)))"
    and m: "0 <s missed (g_rs syslog_only_state)"
    by (simp_all add: level_filtered_def window_start_def window_elapsed_def
        get_current_system_time_def ex_defs word_sless_alt word_sle_eq)
  have f': "\<not> level_filtered overflow_state SPDK_LOG_NOTICE"
    and p': "g_spdk_log_print_level overflow_state = SPDK_LOG_DISABLED"
    and a': "interval (g_rs overflow_state) \<noteq> 0" "interval (g_rs overflow_state) = 2148"
    and b': "\<not> trylock_busy (ex_env 1)"
    and s': "window_start (ex_env 1) overflow_state = get_current_system_time (mono_cur (ex_env 1))"
    and c': "window_elapsed ((g_rs overflow_state)\<lparr>begin_us := window_start (ex_env 1) overflow_state\<rparr>)
         (get_current_system_time (mono_cur (ex_env 1)))"
    and m': "0 <s missed (g_rs overflow_state)"
    by (simp_all add: overflow_state_def level_filtered_def window_start_def window_elapsed_def
        get_current_system_time_def ex_defs word_sless_alt word_sle_eq)
  have l: "SPDK_LOG_NOTICE \<noteq> SPDK_LOG_DISABLED" by simp
  from summary_ignores_thresholds [OF f l a b c m, of ex_vfmt "Some ''bdev.c''" 7 "''open''" "''ready''" "()"]
    summary_ignores_thresholds [OF f' l a'(1) b' c' m', of ex_vfmt "Some ''bdev.c''" 7 "''open''" "''ready''" "()"]
    f p a b c m a'(2) p' s' c'
  show ?thesis
    by (simp add: overflow_state_def ratelimit_summary_def get_timestamp_prefix_def fmt_defs ex_defs Let_def)
qed

subsection \<open>The burst within one window\<close>

text \<open>
  C1 at an interval of 2148 seconds and a burst of 1, two calls within the same second:
  the product \<open>g_rs.interval * 1000000\<close> does not fit an \<open>int\<close> and comes out
  negative, the window counts as elapsed at every call, and the second call is allowed
  too, with nothing counted as missed.
\<close>

theorem burst_window_overflow:
  "0 <s burst (g_rs (one_per_window 2148)) \<and> 0 <s interval (g_rs (one_per_window 2148))
   \<and> sint (interval (g_rs (one_per_window 2148)) * 1000000) = - 2146967296
   \<and> fst (gate_run [ex_env 1, ex_env 1] (one_per_window 2148)) = [True, True]
   \<and> missed (g_rs (snd (gate_run [ex_env 1, ex_env 1] (one_per_window 2148)))) = 0"
  by (simp add: gate_defs ex_defs word_sless_alt word_sle_eq)

text \<open>
  For intervals up to 2147 seconds, whose microseconds fit an \<open>int\<close>, the gate does
  what C1 says: of the calls that read the clock within one window, the first
  \<open>burst - printed\<close> are allowed and each adds one to \<open>printed\<close>, all later ones
  are denied and each adds one to \<open>missed\<close>.
\<close>

lemma sint_usec_product_exact:
  fixes i :: "32 word"
  assumes "0 \<le> sint i" and "sint i \<le> 2147"
  shows "sint (i * 1000000) = sint i * 1000000"
proof -
  have "sint i * 1000000 \<le> 2147 * 1000000" using assms(2) by simp
  then have "sint i * 1000000 < 2 ^ 31" by simp
  moreover have "- (2 ^ 31) \<le> sint i * 1000000" using assms(1) by simp
  ultimately have "signed_take_bit 31 (sint i * 1000000) = sint i * 1000000"
    by (intro signed_take_bit_int_eq_self)
  then show ?thesis by (simp add: sint_word_mult)
qed

lemma window_not_elapsed:
  assumes i: "0 <s interval rs" "sint (interval rs) \<le> 2147"
    and b: "0 \<le> sint (begin_us rs)" "sint (begin_us rs) + sint (interval rs) * 1000000 < 2 ^ 63"
    and t: "sint cur \<le> sint (begin_us rs) + sint (interval rs) * 1000000"
  shows "\<not> window_elapsed rs cur"
proof -
  let ?x = "interval rs * 1000000"
  have i0: "0 \<le> sint (interval rs)" using i(1) by (simp add: word_sless_alt)
  have x: "sint ?x = sint (interval rs) * 1000000"
    using i0 i(2) by (rule sint_usec_product_exact)
  have "sint (begin_us rs + scast ?x) = signed_take_bit 63 (sint (begin_us rs) + sint ?x)"
    by (simp add: sint_word_add sint_scast_32_64)
  also have "\<dots> = sint (begin_us rs) + sint ?x"
    using b i0 x by (intro signed_take_bit_int_eq_self) simp_all
  finally show ?thesis
    using x t by (simp add: window_elapsed_def word_sless_alt)
qed

lemma gate_in_window:
  assumes "same_window T w" and "call_in_window T (interval (g_rs w)) e"
  shows "log_print_ratelimit e w
           = ratelimit_decide (w\<lparr>g_rs := (g_rs w)\<lparr>begin_us := window_start e w\<rparr>\<rparr>)"
    and "in_window T (interval (g_rs w)) (window_start e w)"
proof -
  let ?I = "interval (g_rs w)"
  let ?w1 = "w\<lparr>g_rs := (g_rs w)\<lparr>begin_us := window_start e w\<rparr>\<rparr>"
  have I: "0 <s ?I" "sint ?I \<le> 2147" and T: "0 \<le> sint T" "sint T < 2 ^ 62"
    using assms(1) by (simp_all add: same_window_def)
  have I0: "0 \<le> sint ?I" using I(1) by (simp add: word_sless_alt)
  have Iu: "sint ?I * 1000000 \<le> 2147000000" using I(2) by simp
  show bw: "in_window T ?I (window_start e w)"
    using assms by (auto simp: same_window_def call_in_window_def window_start_def)
  have cur: "in_window T ?I (get_current_system_time (mono_cur e))"
    using assms(2) by (simp add: call_in_window_def)
  have "\<not> window_elapsed (g_rs ?w1) (get_current_system_time (mono_cur e))"
  proof (rule window_not_elapsed)
    show "0 <s interval (g_rs ?w1)" "sint (interval (g_rs ?w1)) \<le> 2147" using I by simp_all
    show "0 \<le> sint (begin_us (g_rs ?w1))" using bw T by (simp add: in_window_def)
    show "sint (begin_us (g_rs ?w1)) + sint (interval (g_rs ?w1)) * 1000000 < 2 ^ 63"
      using bw T Iu by (simp add: in_window_def)
    show "sint (get_current_system_time (mono_cur e))
            \<le> sint (begin_us (g_rs ?w1)) + sint (interval (g_rs ?w1)) * 1000000"
      using bw cur I0 by (simp add: in_window_def)
  qed
  moreover have "interval (g_rs w) \<noteq> 0" using I(1) by auto
  moreover have "\<not> trylock_busy e" using assms(2) by (simp add: call_in_window_def)
  moreover have "begin_us (g_rs w) \<noteq> 0 \<Longrightarrow> ?w1 = w"
    by (simp add: window_start_def)
  ultimately show "log_print_ratelimit e w = ratelimit_decide ?w1"
    by (auto simp: log_print_ratelimit_def ratelimit_window_def Let_def window_start_def)
qed


lemma room_pos: "0 < room rs \<longleftrightarrow> printed rs <s burst rs"
  by (auto simp: room_def word_sless_alt)

lemma gate_step_in_window:
  assumes "same_window T w" and "call_in_window T (interval (g_rs w)) e"
  defines "w' \<equiv> snd (log_print_ratelimit e w)"
  shows "fst (log_print_ratelimit e w) \<longleftrightarrow> 0 < room (g_rs w)"
    and "same_window T w'"
    and "interval (g_rs w') = interval (g_rs w)"
    and "room (g_rs w') = room (g_rs w) - 1"
    and "printed (g_rs w') = printed (g_rs w) + (if 0 < room (g_rs w) then 1 else 0)"
    and "missed (g_rs w') = missed (g_rs w) + (if 0 < room (g_rs w) then 0 else 1)"
proof -
  let ?w1 = "w\<lparr>g_rs := (g_rs w)\<lparr>begin_us := window_start e w\<rparr>\<rparr>"
  note g = gate_in_window [OF assms(1,2)]
  have b: "burst (g_rs w) \<noteq> 0" "0 <s burst (g_rs w)"
    using assms(1) by (auto simp: same_window_def)
  have w': "w' = snd (ratelimit_decide ?w1)" by (simp add: w'_def g(1))
  show "fst (log_print_ratelimit e w) \<longleftrightarrow> 0 < room (g_rs w)"
    using b by (simp add: g(1) ratelimit_decide_def room_pos)
  show "interval (g_rs w') = interval (g_rs w)"
    by (simp add: w' ratelimit_decide_def)
  show "same_window T w'"
    using assms(1) g(2) by (simp add: w' ratelimit_decide_def same_window_def)
  show "printed (g_rs w') = printed (g_rs w) + (if 0 < room (g_rs w) then 1 else 0)"
    using b by (simp add: w' ratelimit_decide_def room_pos)
  show "missed (g_rs w') = missed (g_rs w) + (if 0 < room (g_rs w) then 0 else 1)"
    using b by (simp add: w' ratelimit_decide_def room_pos)
  show "room (g_rs w') = room (g_rs w) - 1"
  proof (cases "printed (g_rs w) <s burst (g_rs w)")
    case True
    from sint_succ_below [OF True] True b show ?thesis
      by (simp add: w' ratelimit_decide_def room_def)
  next
    case False
    then have "room (g_rs w) = 0" by (simp add: room_def word_sless_alt)
    with False b show ?thesis by (simp add: w' ratelimit_decide_def room_def)
  qed
qed

lemma gate_run_in_window:
  assumes "same_window T w" and "\<forall>e\<in>set es. call_in_window T (interval (g_rs w)) e"
  shows "fst (gate_run es w)
           = replicate (min (length es) (room (g_rs w))) True
             @ replicate (length es - room (g_rs w)) False
       \<and> printed (g_rs (snd (gate_run es w)))
           = printed (g_rs w) + of_nat (min (length es) (room (g_rs w)))
       \<and> missed (g_rs (snd (gate_run es w)))
           = missed (g_rs w) + of_nat (length es - room (g_rs w))"
  using assms
proof (induction es arbitrary: w)
  case Nil
  then show ?case by simp
next
  case (Cons e es)
  let ?w' = "snd (log_print_ratelimit e w)"
  from Cons.prems have c: "call_in_window T (interval (g_rs w)) e" by simp
  note s = gate_step_in_window [OF Cons.prems(1) c]
  have "\<forall>x\<in>set es. call_in_window T (interval (g_rs ?w')) x"
    using Cons.prems(2) s(3) by simp
  from Cons.IH [OF s(2) this] have ih:
    "fst (gate_run es ?w') = replicate (min (length es) (room (g_rs ?w'))) True
             @ replicate (length es - room (g_rs ?w')) False"
    "printed (g_rs (snd (gate_run es ?w')))
           = printed (g_rs ?w') + of_nat (min (length es) (room (g_rs ?w')))"
    "missed (g_rs (snd (gate_run es ?w')))
           = missed (g_rs ?w') + of_nat (length es - room (g_rs ?w'))"
    by simp_all
  have run: "gate_run (e # es) w
      = (fst (log_print_ratelimit e w) # fst (gate_run es ?w'), snd (gate_run es ?w'))"
    by (simp add: split_beta)
  show ?case
  proof (cases "0 < room (g_rs w)")
    case True
    then obtain r where r: "room (g_rs w) = Suc r" by (cases "room (g_rs w)") auto
    with s ih run show ?thesis
      by simp
  next
    case False
    then have r: "room (g_rs w) = 0" by simp
    with s ih run show ?thesis
      by (simp add: replicate_Suc [symmetric] del: replicate_Suc)
  qed
qed

lemma of_nat_nat_sint:
  fixes b :: "32 word"
  assumes "0 \<le> sint b"
  shows "of_nat (nat (sint b)) = b"
proof -
  have "(of_nat (nat (sint b)) :: 32 word) = word_of_int (int (nat (sint b)))"
    by (simp only: word_of_int_nat [symmetric] of_int_of_nat_eq)
  also have "\<dots> = word_of_int (sint b)" using assms by simp
  finally show ?thesis by simp
qed

lemma burst_window:
  assumes "0 <s interval (g_rs w)" and "sint (interval (g_rs w)) \<le> 2147"
    and "0 <s burst (g_rs w)" and "printed (g_rs w) = 0" and "begin_us (g_rs w) = 0"
    and "0 \<le> sint T" and "sint T < 2 ^ 62"
    and "length es = nat (sint (burst (g_rs w))) + 1"
    and "\<forall>e\<in>set es. call_in_window T (interval (g_rs w)) e"
  shows "fst (gate_run es w) = replicate (nat (sint (burst (g_rs w)))) True @ [False]
       \<and> printed (g_rs (snd (gate_run es w))) = burst (g_rs w)
       \<and> missed (g_rs (snd (gate_run es w))) = missed (g_rs w) + 1"
proof -
  have sw: "same_window T w" using assms(1,2,3,5,6,7) by (simp add: same_window_def)
  have r: "room (g_rs w) = nat (sint (burst (g_rs w)))"
    using assms(4) by (simp add: room_def)
  have b0: "0 \<le> sint (burst (g_rs w))" using assms(3) by (simp add: word_sless_alt)
  from gate_run_in_window [OF sw assms(9)] r assms(8) b0 assms(4)
  show ?thesis by (simp add: of_nat_nat_sint)
qed

lemma burst_window_example:
  "fst (gate_run [ex_env 1, ex_env 1] (one_per_window 2147)) = [True, False]
   \<and> printed (g_rs (snd (gate_run [ex_env 1, ex_env 1] (one_per_window 2147)))) = 1
   \<and> missed (g_rs (snd (gate_run [ex_env 1, ex_env 1] (one_per_window 2147)))) = 1"
proof -
  have "\<forall>e\<in>set [ex_env 1, ex_env 1].
          call_in_window 1000000 (interval (g_rs (one_per_window 2147))) e"
    by (simp add: call_in_window_def in_window_def get_current_system_time_def ex_defs)
  from burst_window [of "one_per_window 2147" 1000000 "[ex_env 1, ex_env 1]", OF _ _ _ _ _ _ _ _ this]
  show ?thesis
    by (simp add: ex_defs word_sless_alt)
qed

subsection \<open>The invariant of the limiter\<close>

lemma decide_keeps_inv:
  assumes "burst_inv (g_rs w)"
  shows "burst_inv (g_rs (snd (ratelimit_decide w)))"
  using assms sint_succ_below [of "printed (g_rs w)" "burst (g_rs w)"]
  by (auto simp: ratelimit_decide_def burst_inv_def word_sless_alt word_sle_eq)

lemma window_keeps_inv:
  assumes "burst_inv (g_rs w)"
  shows "burst_inv (g_rs (ratelimit_window e w))"
  using assms
  by (auto simp: ratelimit_window_def burst_inv_def Let_def word_sless_alt word_sle_eq)

lemma gate_keeps_inv:
  assumes "burst_inv (g_rs w)"
  shows "burst_inv (g_rs (snd (log_print_ratelimit e w)))"
  using assms by (simp add: log_print_ratelimit_def decide_keeps_inv window_keeps_inv)

lemma step_keeps_inv:
  assumes "burst_inv (g_rs w)" and "burst_kept x w"
  shows "burst_inv (g_rs (rl_step x w))"
proof (cases x)
  case (Gate e)
  with assms show ?thesis by (simp add: gate_keeps_inv)
next
  case (Set_interval i)
  with assms show ?thesis by (simp add: spdk_log_ratelimit_set_interval_def burst_inv_def)
next
  case (Set_burst b)
  with assms show ?thesis by (simp add: spdk_log_ratelimit_set_burst_def burst_inv_def)
qed

lemma run_keeps_inv:
  "burst_inv (g_rs w) \<Longrightarrow> bursts_kept ops w \<Longrightarrow> burst_inv (g_rs (rl_run ops w))"
proof (induction ops arbitrary: w)
  case Nil
  then show ?case by (simp add: rl_run_def)
next
  case (Cons x xs)
  from Cons.prems have "burst_inv (g_rs (rl_step x w))" and "bursts_kept xs (rl_step x w)"
    by (simp_all add: step_keeps_inv)
  then have "burst_inv (g_rs (rl_run xs (rl_step x w)))" by (rule Cons.IH)
  then show ?case by (simp add: rl_run_def)
qed

lemma window_missed:
  "missed (g_rs (ratelimit_window e w)) = missed (g_rs w) \<or> missed (g_rs (ratelimit_window e w)) = 0"
  by (simp add: ratelimit_window_def Let_def)

lemma gate_allow_missed:
  assumes "fst (log_print_ratelimit e w)"
  shows "missed (g_rs (snd (log_print_ratelimit e w))) = missed (g_rs w)
       \<or> missed (g_rs (snd (log_print_ratelimit e w))) = 0"
  using assms window_missed [of e w]
  by (auto simp: log_print_ratelimit_def ratelimit_decide_def split: if_splits)

lemma missed_grows_on_deny:
  assumes "0 \<le>s missed (g_rs w)" and "missed (g_rs w) <s missed (g_rs (rl_step x w))"
  shows "\<exists>e. x = Gate e \<and> \<not> fst (log_print_ratelimit e w)"
proof (cases x)
  case (Gate e)
  show ?thesis
  proof (rule ccontr)
    assume "\<not> ?thesis"
    with Gate have "fst (log_print_ratelimit e w)" by simp
    from gate_allow_missed [OF this] assms Gate show False
      by (auto simp: word_sless_alt word_sle_eq)
  qed
next
  case (Set_interval i)
  with assms show ?thesis by (simp add: spdk_log_ratelimit_set_interval_def word_sless_alt)
next
  case (Set_burst b)
  with assms show ?thesis by (simp add: spdk_log_ratelimit_set_burst_def word_sless_alt)
qed

text \<open>
  C6 as stated fails: from the state at start, two calls of the gate and then
  \<open>spdk_log_ratelimit_set_burst(1)\<close> leave \<open>printed = 2\<close> above \<open>burst = 1\<close>.
\<close>

theorem burst_invariant_counterexample:
  "0 <s burst (g_rs (rl_run [Gate (ex_env 1), Gate (ex_env 1), Set_burst 1] initial_state))
   \<and> \<not> printed (g_rs (rl_run [Gate (ex_env 1), Gate (ex_env 1), Set_burst 1] initial_state))
         \<le>s burst (g_rs (rl_run [Gate (ex_env 1), Gate (ex_env 1), Set_burst 1] initial_state))"
  by (simp add: gate_defs ex_defs word_sless_alt word_sle_eq)

text \<open>
  C6, amended. From the state at start, after any sequence of gate calls at any times
  and of calls of the two setters in which no \<open>spdk_log_ratelimit_set_burst\<close> sets a
  positive burst below the current \<open>printed\<close>, the invariant \<open>printed \<le> burst\<close>
  whenever \<open>burst > 0\<close> holds. After any sequence at all, a further operation makes the
  (non-negative) counter \<open>missed\<close> grow only if it is a call of the gate that denies.
\<close>

theorem burst_invariant:
  "(bursts_kept ops initial_state \<longrightarrow> burst_inv (g_rs (rl_run ops initial_state)))
   \<and> (\<forall>x. 0 \<le>s missed (g_rs (rl_run ops initial_state))
          \<and> missed (g_rs (rl_run ops initial_state))
               <s missed (g_rs (rl_step x (rl_run ops initial_state)))
        \<longrightarrow> (\<exists>e. x = Gate e \<and> \<not> fst (log_print_ratelimit e (rl_run ops initial_state))))"
proof -
  have "burst_inv (g_rs initial_state)"
    by (simp add: burst_inv_def ex_defs word_sle_eq)
  then show ?thesis
    by (auto intro: run_keeps_inv dest: missed_grows_on_deny)
qed

theorem burst_invariant_witness:
  "bursts_kept [Set_burst 1, Gate (ex_env 1), Gate (ex_env 1)] initial_state
   \<and> g_rs (rl_run [Set_burst 1, Gate (ex_env 1), Gate (ex_env 1)] initial_state)
       = \<lparr>interval = 10, burst = 1, printed = 1, missed = 1, begin_us = 1000000\<rparr>
   \<and> burst_inv (g_rs (rl_run [Set_burst 1, Gate (ex_env 1), Gate (ex_env 1)] initial_state))
   \<and> 0 \<le>s missed (g_rs (rl_run [Set_burst 1, Gate (ex_env 1), Gate (ex_env 1)] initial_state))
   \<and> missed (g_rs (rl_run [Set_burst 1, Gate (ex_env 1), Gate (ex_env 1)] initial_state))
        <s missed (g_rs (rl_step (Gate (ex_env 1))
             (rl_run [Set_burst 1, Gate (ex_env 1), Gate (ex_env 1)] initial_state)))
   \<and> \<not> fst (log_print_ratelimit (ex_env 1)
             (rl_run [Set_burst 1, Gate (ex_env 1), Gate (ex_env 1)] initial_state))"
proof -
  let ?ops = "[Set_burst 1, Gate (ex_env 1), Gate (ex_env 1)]"
  have k: "bursts_kept ?ops initial_state"
    by (simp add: ex_defs word_sless_alt word_sle_eq)
  have v: "g_rs (rl_run ?ops initial_state)
       = \<lparr>interval = 10, burst = 1, printed = 1, missed = 1, begin_us = 1000000\<rparr>"
    by (simp add: gate_defs ex_defs word_sless_alt word_sle_eq)
  have m: "0 \<le>s missed (g_rs (rl_run ?ops initial_state))"
    "missed (g_rs (rl_run ?ops initial_state))
       <s missed (g_rs (rl_step (Gate (ex_env 1)) (rl_run ?ops initial_state)))"
    by (simp_all add: gate_defs ex_defs word_sless_alt word_sle_eq)
  from burst_invariant [of ?ops] k have i: "burst_inv (g_rs (rl_run ?ops initial_state))"
    by blast
  from burst_invariant [of ?ops] m obtain e where
    "Gate (ex_env 1) = Gate e" "\<not> fst (log_print_ratelimit e (rl_run ?ops initial_state))"
    by blast
  then have d: "\<not> fst (log_print_ratelimit (ex_env 1) (rl_run ?ops initial_state))" by simp
  from k v i m d show ?thesis by blast
qed

subsection \<open>Interval zero\<close>

text \<open>
  C3. When the interval is 0 the rate gate answers false and leaves the state as it was,
  so a call of \<open>spdk_vlog\<close> without override changes nothing at all: no sink is
  written, no counter moves. The worked example is the scenario of the spec: print
  threshold WARN, log threshold DISABLED, interval 0, and a message at level ERROR, which
  the thresholds would let through.
\<close>

theorem interval_zero_suppresses:
  assumes "interval (g_rs w) = 0"
  shows "log_print_ratelimit e w = (False, w)
       \<and> spdk_vlog vfmt None e level file line func format ap w = w"
  using assms by (simp add: log_print_ratelimit_def spdk_vlog_def)

theorem interval_zero_suppresses_witness:
  "interval (g_rs quirk_state) = 0
   \<and> \<not> level_filtered quirk_state SPDK_LOG_ERROR
   \<and> log_print_ratelimit (ex_env 1) quirk_state = (False, quirk_state)
   \<and> stderr_out (spdk_vlog ex_vfmt None (ex_env 1) SPDK_LOG_ERROR (Some ''nvme.c'') 42
        ''probe'' ''failed'' () quirk_state) = stderr_out quirk_state"
proof -
  have z: "interval (g_rs quirk_state) = 0"
    by (simp add: ex_defs)
  have nf: "\<not> level_filtered quirk_state SPDK_LOG_ERROR"
    by (simp add: level_filtered_def ex_defs)
  from interval_zero_suppresses [OF z, of "ex_env 1" ex_vfmt SPDK_LOG_ERROR "Some ''nvme.c''" 42
      "''probe''" "''failed''" "()"] z nf
  show ?thesis by simp
qed

subsection \<open>The override\<close>

text \<open>
  C4. With an override installed, \<open>spdk_vlog\<close> is the override applied to the raw
  arguments and to the state as it stands: the core filters nothing, limits nothing,
  stamps and formats nothing, and writes to no sink and to no counter of its own. In
  the worked example a DEBUG message that both thresholds exclude, at interval 0, still
  reaches the override, with its format unrendered.
\<close>

theorem override_forwards:
  "spdk_vlog vfmt (Some logf) e level file line func format ap w
     = logf level file line func format ap w"
  by (simp add: spdk_vlog_def)

theorem override_forwards_witness:
  "level_filtered quirk_state SPDK_LOG_DEBUG
   \<and> spdk_vlog ex_vfmt (Some ex_override) (ex_env 1) SPDK_LOG_DEBUG None 7 ''f'' ''%s'' () quirk_state
       = quirk_state\<lparr>syslog_out := [(4, ''%s'')]\<rparr>"
  using override_forwards [of ex_vfmt ex_override "ex_env 1" SPDK_LOG_DEBUG None 7 "''f''" "''%s''" "()" quirk_state]
  by (simp add: ex_override_def level_filtered_def ex_defs)

subsection \<open>The console line\<close>

lemma length_dec_nat_le: "n < 10 ^ Suc j \<Longrightarrow> length (dec_nat n) \<le> Suc j"
proof (induction n arbitrary: j rule: dec_nat.induct)
  case (1 n)
  show ?case
  proof (cases "n < 10")
    case True
    then show ?thesis by (simp add: dec_nat_small)
  next
    case False
    with "1.prems" obtain i where j: "j = Suc i" by (cases j) auto
    from "1.prems" j have "n div 10 < 10 ^ Suc i"
      by (simp add: less_mult_imp_div_less mult.commute)
    from "1.IH" [OF False this] False j show ?thesis
      by (simp add: dec_nat_large)
  qed
qed

lemma dec_nat_digits: "set (dec_nat n) \<subseteq> set ''0123456789''"
proof (induction n rule: dec_nat.induct)
  case (1 n)
  have d: "\<And>m. m < 10 \<Longrightarrow> digit_char m \<in> set ''0123456789''"
  proof -
    fix m :: nat assume "m < 10"
    then have "m \<in> {0, 1, 2, 3, 4, 5, 6, 7, 8, 9}" by auto
    then show "digit_char m \<in> set ''0123456789''"
      by (auto simp: digit_char_def)
  qed
  show ?case
  proof (cases "n < 10")
    case True
    then show ?thesis using d [of n] by (simp add: dec_nat_small)
  next
    case False
    with "1.IH" d [of "n mod 10"] show ?thesis
      by (simp add: dec_nat_large)
  qed
qed

lemma six_digits:
  assumes "n < 1000000"
  shows "length (pad_left CHR ''0'' 6 (dec_nat n)) = 6"
    and "set (pad_left CHR ''0'' 6 (dec_nat n)) \<subseteq> set ''0123456789''"
proof -
  have "length (dec_nat n) \<le> 6" using assms length_dec_nat_le [of n 5] by simp
  then show "length (pad_left CHR ''0'' 6 (dec_nat n)) = 6" by (simp add: pad_left_def)
  show "set (pad_left CHR ''0'' 6 (dec_nat n)) \<subseteq> set ''0123456789''"
    using dec_nat_digits [of n] by (auto simp: pad_left_def)
qed

lemma gate_keeps_config:
  "g_log_timestamps (snd (log_print_ratelimit e w)) = g_log_timestamps w"
  "g_spdk_log_level (snd (log_print_ratelimit e w)) = g_spdk_log_level w"
  "g_spdk_log_print_level (snd (log_print_ratelimit e w)) = g_spdk_log_print_level w"
  "syslog_out (snd (log_print_ratelimit e w)) = syslog_out w"
  by (simp_all add: log_print_ratelimit_def ratelimit_decide_def ratelimit_window_def Let_def)

lemma sdiv_1000_nonneg: "0 \<le> k \<Longrightarrow> (k :: int) sdiv 1000 = k div 1000"
  by (cases "k = 0") (simp_all add: signed_divide_int_def)

lemma usec_below:
  assumes "0 \<le> k" and "k < 1000000000"
  shows "nat ((k :: int) div 1000) < 1000000"
  using assms by auto

lemma timestamp_shape:
  assumes "g_log_timestamps w"
    and "0 \<le> sint (tv_nsec (wall_ts r))" and "sint (tv_nsec (wall_ts r)) < 1000000000"
    and "length (case wall_date r of None \<Rightarrow> ''unknown date'' | Some d \<Rightarrow> d) \<le> 23"
  shows "get_timestamp_prefix w r 64
           = ''['' @ (case wall_date r of None \<Rightarrow> ''unknown date'' | Some d \<Rightarrow> d) @ ''.''
               @ pad_left CHR ''0'' 6 (dec_nat (nat (sint (tv_nsec (wall_ts r)) div 1000))) @ ''] ''"
proof -
  let ?u = "nat (sint (tv_nsec (wall_ts r)) div 1000)"
  have "?u < 1000000" using assms(2,3) by (rule usec_below)
  then have six: "length (pad_left CHR ''0'' 6 (dec_nat ?u)) = 6" by (rule six_digits)
  have f: "fmt_06ld (sint (tv_nsec (wall_ts r)) sdiv 1000) = pad_left CHR ''0'' 6 (dec_nat ?u)"
    using assms(2) by (simp add: fmt_06ld_def sdiv_1000_nonneg pos_imp_zdiv_neg_iff)
  show ?thesis
    using assms(1,4) six
    by (cases "wall_date r") (simp_all add: get_timestamp_prefix_def f snprintf_def Let_def)
qed

lemma level_name_cases:
  "level \<noteq> SPDK_LOG_DISABLED \<Longrightarrow>
     level_name level \<in> {''ERROR'', ''WARNING'', ''NOTICE'', ''INFO'', ''DEBUG''}"
  by (cases level) (simp_all add: level_name_def)

lemma syslog_level_nonneg: "level \<noteq> SPDK_LOG_DISABLED \<Longrightarrow> 0 \<le> spdk_log_to_syslog_level level"
  by (cases level) (simp_all add: LOG_ERR_def LOG_WARNING_def LOG_NOTICE_def LOG_INFO_def)

lemma vlog_console_line:
  assumes "level \<noteq> SPDK_LOG_DISABLED"
    and "level_val level \<le> level_val (g_spdk_log_print_level w)"
    and "fst (log_print_ratelimit e w)"
  shows "stderr_out (spdk_vlog vfmt None e level file line func format ap w)
           = stderr_out (snd (log_print_ratelimit e w))
             @ [get_timestamp_prefix w (wall_message e) 64
                  @ log_line level file line func (take 1023 (vfmt format ap))]"
proof -
  obtain w1 where g: "log_print_ratelimit e w = (True, w1)"
    using assms(3) by (cases "log_print_ratelimit e w") auto
  have c: "g_log_timestamps w1 = g_log_timestamps w"
    "g_spdk_log_print_level w1 = g_spdk_log_print_level w"
    using gate_keeps_config [of e w] by (simp_all add: g)
  have nf: "\<not> level_filtered w level" using assms(2) by (simp add: level_filtered_def)
  show ?thesis
    using assms(1,2) nf syslog_level_nonneg [OF assms(1)] c
    by (simp add: spdk_vlog_def g emit_def get_timestamp_prefix_def snprintf_def MAX_TMPBUF_def Let_def)
qed

text \<open>
  C8 as stated fails: a message from line 42 of nvme.c is written with the line number
  padded to four characters, \<open>"nvme.c:  42:probe"\<close>, where the template of the spec
  gives \<open>"nvme.c:42:probe"\<close>.
\<close>

theorem console_line_format_counterexample:
  "stderr_out (spdk_vlog ex_vfmt None (ex_env 1) SPDK_LOG_ERROR (Some ''nvme.c'') 42
       ''probe'' ''failed'' () ex_state)
     = [''[2023-11-14 22:13:20.123456] nvme.c:  42:probe: *ERROR*: failed'']
   \<and> spec_console_line ''[2023-11-14 22:13:20.123456] '' ''nvme.c'' 42 ''probe'' ''ERROR'' ''failed''
     = ''[2023-11-14 22:13:20.123456] nvme.c:42:probe: *ERROR*: failed''
   \<and> stderr_out (spdk_vlog ex_vfmt None (ex_env 1) SPDK_LOG_ERROR (Some ''nvme.c'') 42
       ''probe'' ''failed'' () ex_state)
     \<noteq> [spec_console_line ''[2023-11-14 22:13:20.123456] '' ''nvme.c'' 42 ''probe'' ''ERROR'' ''failed'']"
  by (simp add: vlog_defs gate_defs spec_console_line_def fmt_defs ex_defs word_sless_alt)

text \<open>
  C8, amended. A call without override, at a level other than DISABLED and within the
  print threshold, that the gate allows, with a file name: the line appended to standard
  error is the timestamp, the file, a colon, the line number right-aligned in a field of
  at least four characters filled with spaces (the conversion \<open>%4d\<close>), a colon, the
  function, \<open>": *"\<close>, the level name, \<open>"*: "\<close>, and the first 1023 characters of the
  rendered message. The timestamp is empty when timestamps are disabled; otherwise it is
  \<open>"["\<close>, the date as \<open>strftime\<close> rendered it (or \<open>"unknown date"\<close> when the local
  time is not available), a dot, the microseconds in six digits and \<open>"] "\<close>. The level
  name is one of ERROR, WARNING, NOTICE, INFO, DEBUG. The clock reading has its
  nanoseconds below one second and the date fits its buffer of 24 bytes.
\<close>

theorem console_line_format:
  assumes "level \<noteq> SPDK_LOG_DISABLED"
    and "level_val level \<le> level_val (g_spdk_log_print_level w)"
    and "fst (log_print_ratelimit e w)"
    and "0 \<le> sint (tv_nsec (wall_ts (wall_message e)))"
    and "sint (tv_nsec (wall_ts (wall_message e))) < 1000000000"
    and "length (case wall_date (wall_message e) of None \<Rightarrow> ''unknown date'' | Some d \<Rightarrow> d) \<le> 23"
  shows "stderr_out (spdk_vlog vfmt None e level (Some file) line func format ap w)
           = stderr_out (snd (log_print_ratelimit e w))
             @ [(if g_log_timestamps w
                 then ''['' @ (case wall_date (wall_message e) of None \<Rightarrow> ''unknown date'' | Some d \<Rightarrow> d)
                      @ ''.''
                      @ pad_left CHR ''0'' 6
                          (dec_nat (nat (sint (tv_nsec (wall_ts (wall_message e))) div 1000)))
                      @ ''] ''
                 else [])
                @ file @ '':'' @ pad_left CHR '' '' 4 (fmt_d (sint line)) @ '':'' @ func
                @ '': *'' @ level_name level @ ''*: '' @ take 1023 (vfmt format ap)]
       \<and> length (pad_left CHR ''0'' 6
                   (dec_nat (nat (sint (tv_nsec (wall_ts (wall_message e))) div 1000)))) = 6
       \<and> level_name level \<in> {''ERROR'', ''WARNING'', ''NOTICE'', ''INFO'', ''DEBUG''}"
proof -
  let ?u = "nat (sint (tv_nsec (wall_ts (wall_message e))) div 1000)"
  have "?u < 1000000" using assms(4,5) by (rule usec_below)
  then have six: "length (pad_left CHR ''0'' 6 (dec_nat ?u)) = 6" by (rule six_digits)
  have ts: "get_timestamp_prefix w (wall_message e) 64
      = (if g_log_timestamps w
         then ''['' @ (case wall_date (wall_message e) of None \<Rightarrow> ''unknown date'' | Some d \<Rightarrow> d)
              @ ''.'' @ pad_left CHR ''0'' 6 (dec_nat ?u) @ ''] ''
         else [])"
    using timestamp_shape [OF _ assms(4,5,6)] by (simp add: get_timestamp_prefix_def)
  show ?thesis
    using six level_name_cases [OF assms(1)]
    by (simp add: vlog_console_line [OF assms(1,2,3)] ts log_line_def fmt_4d_def)
qed

theorem console_line_format_witness:
  "SPDK_LOG_ERROR \<noteq> SPDK_LOG_DISABLED
   \<and> level_val SPDK_LOG_ERROR \<le> level_val (g_spdk_log_print_level ex_state)
   \<and> fst (log_print_ratelimit (ex_env 1) ex_state)
   \<and> stderr_out (spdk_vlog ex_vfmt None (ex_env 1) SPDK_LOG_ERROR (Some ''nvme.c'') 42
        ''probe'' ''failed'' () ex_state)
       = [''[2023-11-14 22:13:20.123456] nvme.c:  42:probe: *ERROR*: failed'']"
proof -
  have a: "SPDK_LOG_ERROR \<noteq> SPDK_LOG_DISABLED"
    and b: "level_val SPDK_LOG_ERROR \<le> level_val (g_spdk_log_print_level ex_state)"
    and c: "fst (log_print_ratelimit (ex_env 1) ex_state)"
    and d: "0 \<le> sint (tv_nsec (wall_ts (wall_message (ex_env 1))))"
      "sint (tv_nsec (wall_ts (wall_message (ex_env 1)))) < 1000000000"
      "length (case wall_date (wall_message (ex_env 1)) of None \<Rightarrow> ''unknown date'' | Some d \<Rightarrow> d) \<le> 23"
    and s: "stderr_out (snd (log_print_ratelimit (ex_env 1) ex_state)) = []"
    by (simp_all add: gate_defs ex_defs word_sless_alt)
  from console_line_format [OF a b c d, of ex_vfmt "''nvme.c''" 42 "''probe''" "''failed''" "()"] a b c s
  show ?thesis
    by (simp add: level_name_def fmt_defs ex_defs)
qed

subsection \<open>The thresholds\<close>

text \<open>
  C5. Without override, a message whose level exceeds both the print threshold and the
  log threshold leaves the whole state unchanged: both sinks, and the limiter with its
  five fields, so the rate gate has not run.
\<close>

theorem filtered_no_effect:
  assumes "level_filtered w level"
  shows "spdk_vlog vfmt None e level file line func format ap w = w"
  using assms by (simp add: spdk_vlog_def)

theorem filtered_no_effect_witness:
  "level_filtered ex_state SPDK_LOG_NOTICE
   \<and> spdk_vlog ex_vfmt None (ex_env 1) SPDK_LOG_NOTICE (Some ''a.c'') 3 ''f'' ''m'' () ex_state = ex_state"
proof -
  have f: "level_filtered ex_state SPDK_LOG_NOTICE"
    by (simp add: level_filtered_def ex_defs)
  from filtered_no_effect [OF f] f show ?thesis by simp
qed

text \<open>
  C7 as stated fails: with both thresholds at ERROR, DEBUG is filtered out and so is the
  more severe INFO.
\<close>

theorem level_monotone_counterexample:
  "level_val SPDK_LOG_INFO < level_val SPDK_LOG_DEBUG
   \<and> level_filtered (ex_state\<lparr>g_spdk_log_print_level := SPDK_LOG_ERROR,
        g_spdk_log_level := SPDK_LOG_ERROR\<rparr>) SPDK_LOG_DEBUG
   \<and> level_filtered (ex_state\<lparr>g_spdk_log_print_level := SPDK_LOG_ERROR,
        g_spdk_log_level := SPDK_LOG_ERROR\<rparr>) SPDK_LOG_INFO"
  by (simp add: level_filtered_def)

text \<open>
  C7, amended. The threshold check is monotone in the other direction: for levels
  \<open>l1 < l2\<close> under the same thresholds, when the less severe \<open>l2\<close> passes the check,
  the more severe \<open>l1\<close> passes it too.
\<close>

theorem level_monotone:
  assumes "level_val l1 < level_val l2" and "\<not> level_filtered w l2"
  shows "\<not> level_filtered w l1"
  using assms by (auto simp: level_filtered_def)

theorem level_monotone_witness:
  "level_val SPDK_LOG_ERROR < level_val SPDK_LOG_WARN
   \<and> \<not> level_filtered ex_state SPDK_LOG_WARN
   \<and> \<not> level_filtered ex_state SPDK_LOG_ERROR"
proof -
  have a: "level_val SPDK_LOG_ERROR < level_val SPDK_LOG_WARN" by simp
  have b: "\<not> level_filtered ex_state SPDK_LOG_WARN"
    by (simp add: level_filtered_def ex_defs)
  from level_monotone [OF a b] a b show ?thesis by simp
qed

subsection \<open>The hex dump: the first loop as a fold over the indices\<close>

lemma unat_of_nat_32: "n < 2 ^ 32 \<Longrightarrow> unat (of_nat n :: 32 word) = n"
  by (simp add: unat_of_nat)

lemma fdump_loop_fold:
  assumes "length buf < 2 ^ 32" and "i \<le> length buf"
  shows "fdump_loop buf (of_nat i) st
           = Some (of_nat (length buf),
                   fold (\<lambda>j. fdump_byte (of_nat j) (buf ! j)) [i..<length buf] st)"
  using assms(2)
proof (induction "length buf - i" arbitrary: i st)
  case 0
  then have i: "i = length buf" by simp
  have "unat (of_nat (length buf) :: 32 word) = length buf"
    using assms(1) by (rule unat_of_nat_32)
  then show ?case by (subst fdump_loop.simps) (simp add: i)
next
  case (Suc d)
  then have lt: "i < length buf" by simp
  then have u: "unat (of_nat i :: 32 word) = i"
    using assms(1) by (intro unat_of_nat_32) simp
  have d: "d = length buf - Suc i" using Suc.hyps(2) by simp
  have "fdump_loop buf (of_nat i) st
      = fdump_loop buf (of_nat (Suc i)) (fdump_byte (of_nat i) (buf ! i) st)"
    using lt u by (subst fdump_loop.simps) (simp add: add.commute)
  also have "\<dots> = Some (of_nat (length buf),
      fold (\<lambda>j. fdump_byte (of_nat j) (buf ! j)) [Suc i..<length buf]
        (fdump_byte (of_nat i) (buf ! i) st))"
    using lt by (intro Suc.hyps(1) d) simp
  finally show ?case using lt by (simp add: upt_conv_Cons)
qed

subsection \<open>The loop counter\<close>

lemma idx_mod_16: "n < 2 ^ 32 \<Longrightarrow> unat ((of_nat n :: 32 word) mod 16) = n mod 16"
  by (simp add: unat_mod unat_of_nat_32)

lemma idx_mod_8: "n < 2 ^ 32 \<Longrightarrow> unat ((of_nat n :: 32 word) mod 8) = n mod 8"
  by (simp add: unat_mod unat_of_nat_32)

lemma idx_mod_16_zero: "n < 2 ^ 32 \<Longrightarrow> (of_nat n :: 32 word) mod 16 = 0 \<longleftrightarrow> n mod 16 = 0"
  using idx_mod_16 [of n] by (metis unat_eq_0)

lemma idx_mod_8_zero: "n < 2 ^ 32 \<Longrightarrow> (of_nat n :: 32 word) mod 8 = 0 \<longleftrightarrow> n mod 8 = 0"
  using idx_mod_8 [of n] by (metis unat_eq_0)

lemma idx_zero: "n < 2 ^ 32 \<Longrightarrow> (of_nat n :: 32 word) = 0 \<longleftrightarrow> n = 0"
  using unat_of_nat_32 [of n] by (metis unat_eq_0 of_nat_0)

lemma idx_eight: "n < 2 ^ 32 \<Longrightarrow> (of_nat n :: 32 word) = 8 \<longleftrightarrow> n = 8"
proof
  assume "n < 2 ^ 32" and "(of_nat n :: 32 word) = 8"
  then have "unat (of_nat n :: 32 word) = unat (8 :: 32 word)" by simp
  with \<open>n < 2 ^ 32\<close> show "n = 8" by (simp add: unat_of_nat_32)
qed simp

subsection \<open>Lengths\<close>

lemma unat_byte_less: "unat (b :: 8 word) < 256"
  using unsigned_less [of b, where ?'a = nat] by simp

lemma length_hex_nat_le: "n < 16 ^ Suc j \<Longrightarrow> length (hex_nat n) \<le> Suc j"
proof (induction n arbitrary: j rule: hex_nat.induct)
  case (1 n)
  show ?case
  proof (cases "n < 16")
    case True
    then show ?thesis by (simp add: hex_nat_small)
  next
    case False
    with "1.prems" obtain i where j: "j = Suc i" by (cases j) auto
    from "1.prems" j have "n div 16 < 16 ^ Suc i"
      by (simp add: less_mult_imp_div_less mult.commute)
    from "1.IH" [OF False this] False j show ?thesis
      by (simp add: hex_nat_large)
  qed
qed

lemma length_fmt_08x: "n < 2 ^ 32 \<Longrightarrow> length (fmt_08x n) = 8"
  using length_hex_nat_le [of n 7] by (simp add: fmt_08x_def pad_left_def)

lemma length_fmt_2_2x: "length (fmt_2_2x (unat (b :: 8 word))) = 2"
proof -
  have "unat b < 16 ^ Suc 1" using unat_byte_less [of b] by simp
  from length_hex_nat_le [OF this] show ?thesis by (simp add: fmt_2_2x_def pad_left_def)
qed

lemma byte_mask: "and (b :: 8 word) 0xff = b"
proof -
  have "uint b < 2 ^ 8" using uint_bounded [of b] by simp
  then have "and b (mask 8) = b" by (simp only: mask_eq_iff)
  then show ?thesis by (simp add: mask_eq_exp_minus_1)
qed

lemma length_byte_cell [simp]: "length (byte_cell b) = 3"
  by (simp add: byte_cell_def length_fmt_2_2x)

lemma length_hex_cols: "length (hex_cols i bs) \<le> 4 * length bs"
  by (induction i bs rule: hex_cols.induct) simp_all

lemma hex_cols_snoc:
  "hex_cols i (bs @ [b])
     = hex_cols i bs @ (if (i + length bs) mod 8 = 0 then '' '' else []) @ byte_cell b"
  by (induction i bs rule: hex_cols.induct) simp_all

subsection \<open>The ASCII column\<close>

lemma ascii_col_no_NUL: "NUL \<notin> set (ascii_col bs)"
proof -
  have "byte_char b \<noteq> NUL" if "isprint b" for b
  proof
    assume "byte_char b = NUL"
    then have "of_char (char_of (unat b)) = (of_char (CHR 0x00) :: nat)"
      by (simp add: byte_char_def NUL_def)
    then have "unat b = 0" using unat_byte_less [of b] by (simp add: of_char_of)
    then have "b = 0" by (simp add: unat_eq_0)
    with that show False by (simp add: isprint_def)
  qed
  moreover have "CHR ''.'' \<noteq> NUL" by (simp add: NUL_def)
  ultimately show ?thesis by (fastforce simp: ascii_col_def split: if_splits)
qed

lemma cstr_padded: "NUL \<notin> set xs \<Longrightarrow> cstr (xs @ replicate k NUL) = xs"
  by (cases k) (auto simp: cstr_def takeWhile_append takeWhile_eq_all_conv)

lemma length_ascii_col [simp]: "length (ascii_col bs) = length bs"
  by (simp add: ascii_col_def)

lemma ascii_col_snoc:
  "ascii_col (bs @ [b]) = ascii_col bs @ [if isprint b then byte_char b else CHR ''.'']"
  by (simp add: ascii_col_def)

subsection \<open>One round of the first loop\<close>

lemma put_append:
  assumes "total_len st = length (tmpbuf st)" and "length (tmpbuf st) + length s < 1024"
  shows "put s st = st\<lparr>tmpbuf := tmpbuf st @ s, total_len := length (tmpbuf st) + length s\<rparr>"
  using assms by (simp add: put_def snprintf_at_def MAX_TMPBUF_def)

lemma put_start:
  assumes "total_len st = 0" and "length s < 1024"
  shows "put s st = st\<lparr>tmpbuf := s, total_len := length s\<rparr>"
  using assms by (simp add: put_def snprintf_at_def MAX_TMPBUF_def)

lemma put_mk_state:
  assumes "length t + length s < 1024"
  shows "put s (mk_state t a out) = mk_state (t @ s) a out"
  using assms by (simp add: put_append mk_state_def)

lemma buf16_store:
  assumes "length a < 17"
  shows "(a @ replicate (17 - length a) NUL)[length a := c]
           = (a @ [c]) @ replicate (17 - length (a @ [c])) NUL"
proof -
  from assms obtain m where m: "17 - length a = Suc m" by (cases "17 - length a") auto
  then have "17 - length (a @ [c]) = m" by simp
  with m show ?thesis by (simp add: list_update_append)
qed

lemma store_mk_state:
  assumes "length a < 17"
  shows "(mk_state t a out)\<lparr>buf16 := (buf16 (mk_state t a out))[length a := c]\<rparr>
           = mk_state t (a @ [c]) out"
  using buf16_store [OF assms] by (simp add: mk_state_def)

text \<open>A byte inside a row.\<close>

lemma byte_mid_row:
  assumes n: "n < 2 ^ 32" "n mod 16 \<noteq> 0" and a: "length a = n mod 16"
    and t: "length t + 4 < 1024"
  shows "fdump_byte (of_nat n) b (mk_state t a out)
           = mk_state (t @ (if n mod 8 = 0 then '' '' else []) @ byte_cell b)
               (a @ [if isprint b then byte_char b else CHR ''.'']) out"
proof -
  have z: "(of_nat n :: 32 word) mod 16 \<noteq> 0" using n by (simp add: idx_mod_16_zero)
  have e: "(of_nat n :: 32 word) mod 8 = 0 \<longleftrightarrow> n mod 8 = 0" using n(1) by (rule idx_mod_8_zero)
  have u: "unat ((of_nat n :: 32 word) mod 16) = length a" using n(1) a by (simp add: idx_mod_16)
  have la: "length a < 17" using a by simp
  show ?thesis
  proof (cases "n mod 8 = 0")
    case True
    have "fdump_byte (of_nat n) b (mk_state t a out)
        = (mk_state ((t @ '' '') @ byte_cell b) a out)
            \<lparr>buf16 := (buf16 (mk_state ((t @ '' '') @ byte_cell b) a out))
               [length a := (if isprint b then byte_char b else CHR ''.'')]\<rparr>"
      using z e u True t
      by (simp add: fdump_byte_def Let_def put_mk_state byte_mask byte_cell_def [symmetric])
    then show ?thesis using True by (simp add: store_mk_state [OF la])
  next
    case False
    have "fdump_byte (of_nat n) b (mk_state t a out)
        = (mk_state (t @ byte_cell b) a out)
            \<lparr>buf16 := (buf16 (mk_state (t @ byte_cell b) a out))
               [length a := (if isprint b then byte_char b else CHR ''.'')]\<rparr>"
      using z e u False t
      by (simp add: fdump_byte_def Let_def put_mk_state byte_mask byte_cell_def [symmetric])
    then show ?thesis using False by (simp add: store_mk_state [OF la])
  qed
qed

lemma flush_mk_state:
  assumes "length a = 16" and "NUL \<notin> set a" and "length t + 17 < 1024"
  shows "flush_row (mk_state t a out)
           = \<lparr>tmpbuf = t @ '' '' @ a, buf16 = replicate 17 NUL, total_len = 0,
              fp = out @ [t @ '' '' @ a @ [CHR 0x0A]]\<rparr>"
  using assms cstr_padded [of a 1]
  by (simp add: flush_row_def mk_state_def snprintf_at_def MAX_TMPBUF_def)

lemma row_head:
  assumes "n < 2 ^ 32" and "total_len st = 0" and "buf16 st = replicate 17 NUL"
  shows "put (byte_cell b) (put '' '' (put (fmt_08x n @ '' '') st))
           = mk_state (fmt_08x n @ '' '' @ '' '' @ byte_cell b) [] (fp st)"
proof -
  have l: "length (fmt_08x n) = 8" using assms(1) by (rule length_fmt_08x)
  have "put (fmt_08x n @ '' '') st = mk_state (fmt_08x n @ '' '') [] (fp st)"
    using assms(2,3) l by (simp add: put_start mk_state_def)
  then show ?thesis using l by (simp add: put_mk_state)
qed

text \<open>The first byte of a row after the first row: the row before it is written out.\<close>

lemma byte_row_start:
  assumes n: "n < 2 ^ 32" "n mod 16 = 0" "n \<noteq> 0"
    and a: "length a = 16" "NUL \<notin> set a" and t: "length t + 17 < 1024"
  shows "fdump_byte (of_nat n) b (mk_state t a out)
           = mk_state (fmt_08x n @ '' '' @ '' '' @ byte_cell b)
               [if isprint b then byte_char b else CHR ''.'']
               (out @ [t @ '' '' @ a @ [CHR 0x0A]])"
proof -
  let ?f = "flush_row (mk_state t a out)"
  let ?out = "out @ [t @ '' '' @ a @ [CHR 0x0A]]"
  have z: "(of_nat n :: 32 word) mod 16 = 0" using n by (simp add: idx_mod_16_zero)
  have nz: "(of_nat n :: 32 word) \<noteq> 0" using n by (simp add: idx_zero)
  have "n mod 8 = 0" using n(2) by presburger
  then have e: "(of_nat n :: 32 word) mod 8 = 0" using n(1) by (simp add: idx_mod_8_zero)
  have u: "unat (of_nat n :: 32 word) = n" using n(1) by (rule unat_of_nat_32)
  have f: "?f = \<lparr>tmpbuf = t @ '' '' @ a, buf16 = replicate 17 NUL, total_len = 0, fp = ?out\<rparr>"
    using a t by (rule flush_mk_state)
  have h: "put (byte_cell b) (put '' '' (put (fmt_08x n @ '' '') ?f))
      = mk_state (fmt_08x n @ '' '' @ '' '' @ byte_cell b) [] ?out"
    using row_head [OF n(1), of ?f b] by (simp add: f)
  have "fdump_byte (of_nat n) b (mk_state t a out)
      = (mk_state (fmt_08x n @ '' '' @ '' '' @ byte_cell b) [] ?out)
          \<lparr>buf16 := (buf16 (mk_state (fmt_08x n @ '' '' @ '' '' @ byte_cell b) [] ?out))
             [length ([] :: string) := (if isprint b then byte_char b else CHR ''.'')]\<rparr>"
    using z nz e u h
    by (simp add: fdump_byte_def Let_def byte_mask byte_cell_def [symmetric])
  then show ?thesis
    using store_mk_state [of "[]" "fmt_08x n @ '' '' @ '' '' @ byte_cell b" ?out] by simp
qed

text \<open>The very first byte.\<close>

lemma byte_first:
  "fdump_byte 0 b \<lparr>tmpbuf = [], buf16 = replicate 17 NUL, total_len = 0, fp = out\<rparr>
     = mk_state (fmt_08x 0 @ '' '' @ '' '' @ byte_cell b)
         [if isprint b then byte_char b else CHR ''.''] out"
proof -
  let ?i = "\<lparr>tmpbuf = [], buf16 = replicate 17 NUL, total_len = 0, fp = out\<rparr>"
  have h: "put (byte_cell b) (put '' '' (put (fmt_08x 0 @ '' '') ?i))
      = mk_state (fmt_08x 0 @ '' '' @ '' '' @ byte_cell b) [] out"
    using row_head [of 0 ?i b] by simp
  have "fdump_byte 0 b ?i
      = (mk_state (fmt_08x 0 @ '' '' @ '' '' @ byte_cell b) [] out)
          \<lparr>buf16 := (buf16 (mk_state (fmt_08x 0 @ '' '' @ '' '' @ byte_cell b) [] out))
             [length ([] :: string) := (if isprint b then byte_char b else CHR ''.'')]\<rparr>"
    using h by (simp add: fdump_byte_def Let_def byte_mask byte_cell_def [symmetric])
  then show ?thesis
    using store_mk_state [of "[]" "fmt_08x 0 @ '' '' @ '' '' @ byte_cell b" out] by simp
qed

subsection \<open>The state after \<open>n\<close> bytes\<close>

lemma row_arith:
  fixes n :: nat
  assumes "0 < n"
  shows "n - 16 * ((n - 1) div 16) \<le> 16"
    and "n mod 16 \<noteq> 0 \<Longrightarrow> n div 16 = (n - 1) div 16"
    and "n mod 16 \<noteq> 0 \<Longrightarrow> n - 16 * ((n - 1) div 16) = n mod 16"
    and "n mod 16 \<noteq> 0 \<Longrightarrow> 16 * ((n - 1) div 16) \<le> n"
    and "n mod 16 = 0 \<Longrightarrow> n div 16 = Suc ((n - 1) div 16)"
    and "n mod 16 = 0 \<Longrightarrow> 16 * Suc ((n - 1) div 16) = n"
    and "n mod 16 = 0 \<Longrightarrow> n - 16 * ((n - 1) div 16) = 16"
    and "n mod 16 mod 8 = 0 \<longleftrightarrow> n mod 8 = 0"
proof -
  define q where "q = (n - 1) div 16"
  define r where "r = (n - 1) mod 16"
  have r: "r < 16" by (simp add: r_def)
  have "n - 1 = 16 * q + r" by (simp add: q_def r_def)
  with assms have n: "n = 16 * q + Suc r" by simp
  have d: "n div 16 = q + Suc r div 16" by (simp add: n)
  have m: "n mod 16 = Suc r mod 16" by (simp add: n)
  have small: "Suc r < 16 \<Longrightarrow> Suc r mod 16 = Suc r \<and> Suc r div 16 = 0" by simp
  have big: "\<not> Suc r < 16 \<Longrightarrow> Suc r = 16" using r by simp
  show "n - 16 * ((n - 1) div 16) \<le> 16"
    using r unfolding q_def [symmetric] by (simp add: n)
  show "n div 16 = (n - 1) div 16" if "n mod 16 \<noteq> 0"
    using that small big d m unfolding q_def [symmetric] by (cases "Suc r < 16") simp_all
  show "n - 16 * ((n - 1) div 16) = n mod 16" if "n mod 16 \<noteq> 0"
    using that small big m unfolding q_def [symmetric] by (cases "Suc r < 16") (simp_all add: n)
  show "16 * ((n - 1) div 16) \<le> n" if "n mod 16 \<noteq> 0"
    unfolding q_def [symmetric] by (simp add: n)
  show "n div 16 = Suc ((n - 1) div 16)" if "n mod 16 = 0"
    using that small big d m unfolding q_def [symmetric] by (cases "Suc r < 16") simp_all
  show "16 * Suc ((n - 1) div 16) = n" if "n mod 16 = 0"
    using that small big m unfolding q_def [symmetric] by (cases "Suc r < 16") (simp_all add: n)
  show "n - 16 * ((n - 1) div 16) = 16" if "n mod 16 = 0"
    using that small big m unfolding q_def [symmetric] by (cases "Suc r < 16") (simp_all add: n)
  show "n mod 16 mod 8 = 0 \<longleftrightarrow> n mod 8 = 0"
    by (simp add: mod_mod_cancel)
qed

lemma row_state_unfold:
  "row_state label buf (Suc n) =
     mk_state (fmt_08x (16 * (n div 16)) @ '' '' @ hex_cols 0 (drop (16 * (n div 16)) (take (Suc n) buf)))
       (ascii_col (drop (16 * (n div 16)) (take (Suc n) buf)))
       ((label @ [CHR 0x0A])
          # map (\<lambda>j. full_row (16 * j) (take 16 (drop (16 * j) buf))) [0..<n div 16])"
  by (simp add: row_state_def)

lemma row_state_step:
  assumes len: "length buf < 2 ^ 32" and that: "Suc n < length buf"
  shows "fdump_byte (of_nat (Suc n)) (buf ! Suc n) (row_state label buf (Suc n))
           = row_state label buf (Suc (Suc n))"
proof -
  define m where "m = Suc n"
  define k where "k = n div 16"
  define cur where "cur = drop (16 * k) (take m buf)"
  define t where "t = fmt_08x (16 * k) @ '' '' @ hex_cols 0 cur"
  define out where "out = (label @ [CHR 0x0A])
          # map (\<lambda>j. full_row (16 * j) (take 16 (drop (16 * j) buf))) [0..<k]"
  define c where "c = (if isprint (buf ! m) then byte_char (buf ! m) else CHR ''.'')"
  have m: "m < length buf" "0 < m" using that by (simp_all add: m_def)
  have rs: "row_state label buf m = mk_state t (ascii_col cur) out"
    by (simp add: m_def row_state_unfold t_def cur_def out_def k_def)
  have rs': "row_state label buf (Suc m) =
     mk_state (fmt_08x (16 * (m div 16)) @ '' '' @ hex_cols 0 (drop (16 * (m div 16)) (take (Suc m) buf)))
       (ascii_col (drop (16 * (m div 16)) (take (Suc m) buf)))
       ((label @ [CHR 0x0A])
          # map (\<lambda>j. full_row (16 * j) (take 16 (drop (16 * j) buf))) [0..<m div 16])"
    by (rule row_state_unfold)
  have km: "k = (m - 1) div 16" by (simp add: k_def m_def)
  have m32: "m < 2 ^ 32" using len m by simp
  have k32: "16 * k < 2 ^ 32" using m32 km by simp
  have lcur: "length cur = m - 16 * k" using m by (simp add: cur_def)
  have lcur16: "length cur \<le> 16" using row_arith(1) [OF m(2)] by (simp add: lcur km)
  have l8: "length (fmt_08x (16 * k)) = 8" using k32 by (rule length_fmt_08x)
  have lt: "length t \<le> 73"
    using length_hex_cols [of 0 cur] lcur16 l8 by (simp add: t_def)
  have tk: "take (Suc m) buf = take m buf @ [buf ! m]"
    using m by (simp add: take_Suc_conv_app_nth)
  show ?thesis unfolding m_def [symmetric]
  proof (cases "m mod 16 = 0")
    case False
    have k: "m div 16 = k" using row_arith(2) [OF m(2) False] by (simp add: km)
    have la: "length cur = m mod 16" using row_arith(3) [OF m(2) False] by (simp add: lcur km)
    have m8: "length cur mod 8 = 0 \<longleftrightarrow> m mod 8 = 0"
      using row_arith(8) [OF m(2)] by (simp add: la)
    have "16 * k \<le> m" using row_arith(4) [OF m(2) False] by (simp add: km)
    then have cur': "drop (16 * k) (take (Suc m) buf) = cur @ [buf ! m]"
      using m by (simp add: tk cur_def)
    have "fdump_byte (of_nat m) (buf ! m) (mk_state t (ascii_col cur) out)
        = mk_state (t @ (if m mod 8 = 0 then '' '' else []) @ byte_cell (buf ! m))
            (ascii_col cur @ [c]) out"
      unfolding c_def using m32 False la lt by (intro byte_mid_row) simp_all
    also have "\<dots> = row_state label buf (Suc m)"
      using m8 by (simp add: rs' k cur' hex_cols_snoc ascii_col_snoc t_def out_def c_def)
    finally show "fdump_byte (of_nat m) (buf ! m) (row_state label buf m)
        = row_state label buf (Suc m)"
      by (simp only: rs)
  next
    case True
    have k: "m div 16 = Suc k" and mk: "16 * Suc k = m"
      using row_arith(5,6) [OF m(2) True] by (simp_all add: km)
    have l16: "length cur = 16" using row_arith(7) [OF m(2) True] by (simp add: lcur km)
    have "m - 16 * k = 16" using row_arith(7) [OF m(2) True] by (simp add: km)
    then have cur: "cur = take 16 (drop (16 * k) buf)"
      by (simp add: cur_def drop_take)
    have cur': "drop m (take (Suc m) buf) = [buf ! m]"
      using m by (simp add: tk)
    have row: "t @ '' '' @ ascii_col cur @ [CHR 0x0A] = full_row (16 * k) (take 16 (drop (16 * k) buf))"
      by (simp add: full_row_def cur [symmetric] t_def)
    have "fdump_byte (of_nat m) (buf ! m) (mk_state t (ascii_col cur) out)
        = mk_state (fmt_08x m @ '' '' @ '' '' @ byte_cell (buf ! m)) [c]
            (out @ [t @ '' '' @ ascii_col cur @ [CHR 0x0A]])"
      unfolding c_def using m32 True m(2) l16 ascii_col_no_NUL [of cur] lt
      by (intro byte_row_start) simp_all
    also have "\<dots> = mk_state (fmt_08x m @ '' '' @ '' '' @ byte_cell (buf ! m)) [c]
            (out @ [full_row (16 * k) (take 16 (drop (16 * k) buf))])"
      by (simp only: row)
    also have "\<dots> = row_state label buf (Suc m)"
      unfolding rs' k mk cur' by (simp add: out_def ascii_col_def c_def)
    finally show "fdump_byte (of_nat m) (buf ! m) (row_state label buf m)
        = row_state label buf (Suc m)"
      by (simp only: rs)
  qed
qed

lemma row_state_first:
  assumes "0 < length buf"
  shows "fdump_byte 0 (buf ! 0)
           \<lparr>tmpbuf = [], buf16 = replicate 17 NUL, total_len = 0, fp = [label @ [CHR 0x0A]]\<rparr>
         = row_state label buf 1"
proof -
  have "take 1 buf = [buf ! 0]" using assms by (cases buf) simp_all
  then show ?thesis
    by (simp add: byte_first row_state_def ascii_col_def)
qed

lemma fold_row_state:
  assumes "length buf < 2 ^ 32" and "n < length buf"
  shows "fold (\<lambda>j. fdump_byte (of_nat j) (buf ! j)) [0..<Suc n]
           \<lparr>tmpbuf = [], buf16 = replicate 17 NUL, total_len = 0, fp = [label @ [CHR 0x0A]]\<rparr>
         = row_state label buf (Suc n)"
  using assms(2)
proof (induction n)
  case 0
  then show ?case by (simp add: row_state_first)
next
  case (Suc n)
  then have "n < length buf" by simp
  from Suc.IH [OF this] row_state_step [OF assms(1) Suc.prems, of label]
  show ?case by simp
qed

subsection \<open>The padding loop\<close>

lemma idx_mod_16_any: "(of_nat n :: 32 word) mod 16 = 0 \<longleftrightarrow> n mod 16 = 0"
proof -
  have "unat ((of_nat n :: 32 word) mod 16) = n mod 2 ^ 32 mod 16"
    by (simp add: unat_mod unat_of_nat)
  also have "\<dots> = n mod 16" by (simp add: mod_mod_cancel)
  finally show ?thesis by (metis unat_eq_0)
qed

lemma length_pad_from: "length (pad_from n k) \<le> 4 * k"
proof (induction k arbitrary: n)
  case 0
  show ?case by simp
next
  case (Suc k)
  from Suc [of "Suc n"] show ?case by (cases "n = 8") simp_all
qed

lemma fdump_pad_eq:
  assumes "n + k \<le> 2 ^ 32" and "(n + k) mod 16 = 0" and "k < 16" and "length t + 4 * k < 1024"
  shows "fdump_pad (of_nat n) (mk_state t a out) = mk_state (t @ pad_from n k) a out"
  using assms
proof (induction k arbitrary: n t)
  case 0
  then have "(of_nat n :: 32 word) mod 16 = 0" by (simp add: idx_mod_16_any)
  then show ?case by (subst fdump_pad.simps) simp
next
  case (Suc k)
  have n32: "n < 2 ^ 32" using Suc.prems(1) by simp
  have "n mod 16 \<noteq> 0"
  proof
    assume "n mod 16 = 0"
    then have "(n + Suc k) mod 16 = Suc k mod 16"
      using mod_add_left_eq [of n 16 "Suc k"] by simp
    with Suc.prems(2,3) show False by simp
  qed
  then have nz: "(of_nat n :: 32 word) mod 16 \<noteq> 0" by (simp add: idx_mod_16_any)
  have e: "(of_nat n :: 32 word) = 8 \<longleftrightarrow> n = 8" using n32 by (rule idx_eight)
  let ?t = "t @ (if n = 8 then '' '' else []) @ ''   ''"
  have p: "put ''   '' (if (of_nat n :: 32 word) = 8 then put '' '' (mk_state t a out) else mk_state t a out)
      = mk_state ?t a out"
    using Suc.prems(4) by (simp add: e put_mk_state)
  have "fdump_pad (of_nat n) (mk_state t a out) = fdump_pad (of_nat (Suc n)) (mk_state ?t a out)"
    using nz p by (subst fdump_pad.simps) (simp add: add.commute)
  also have "\<dots> = mk_state (?t @ pad_from (Suc n) k) a out"
    using Suc.prems by (intro Suc.IH) simp_all
  finally show ?case by simp
qed

subsection \<open>The rows\<close>

lemma dump_rows_eq:
  "dump_rows pad off bs
     = map (\<lambda>j. full_row (off + 16 * j) (take 16 (drop (16 * j) bs))) [0..<(length bs - 1) div 16]
       @ [last_row pad (off + 16 * ((length bs - 1) div 16)) (drop (16 * ((length bs - 1) div 16)) bs)]"
proof (induction pad off bs rule: dump_rows.induct)
  case (1 pad off bs)
  show ?case
  proof (cases "length bs \<le> 16")
    case True
    then have z: "(length bs - 1) div 16 = 0" by simp
    show ?thesis using True by (subst dump_rows.simps) (simp add: z)
  next
    case False
    define k where "k = (length (drop 16 bs) - 1) div 16"
    have k: "(length bs - 1) div 16 = Suc k"
    proof -
      have "length bs - 1 = (length bs - 17) + 16" using False by simp
      then have "(length bs - 1) div 16 = (length bs - 17) div 16 + 1" by (simp only: div_add_self2)
      then show ?thesis by (simp add: k_def)
    qed
    have ih: "dump_rows pad (off + 16) (drop 16 bs)
        = map (\<lambda>j. full_row (off + 16 + 16 * j) (take 16 (drop (16 * j) (drop 16 bs)))) [0..<k]
          @ [last_row pad (off + 16 + 16 * k) (drop (16 * k) (drop 16 bs))]"
      using "1.IH" [OF False] by (simp add: k_def)
    have m: "map (\<lambda>j. full_row (off + 16 * j) (take 16 (drop (16 * j) bs))) [0..<Suc k]
        = full_row off (take 16 bs)
          # map (\<lambda>j. full_row (off + 16 + 16 * j) (take 16 (drop (16 * j) (drop 16 bs)))) [0..<k]"
      by (simp add: upt_conv_Cons map_Suc_upt [symmetric] ac_simps del: upt_Suc)
    have "dump_rows pad off bs = full_row off (take 16 bs) # dump_rows pad (off + 16) (drop 16 bs)"
      using False by (subst dump_rows.simps) simp
    also have "\<dots> = map (\<lambda>j. full_row (off + 16 * j) (take 16 (drop (16 * j) bs))) [0..<Suc k]
          @ [last_row pad (off + 16 * Suc k) (drop (16 * Suc k) bs)]"
      unfolding ih m by (simp add: ac_simps)
    finally show ?thesis unfolding k .
  qed
qed

subsection \<open>The dump as rows\<close>

lemma pad_count:
  fixes n :: nat
  assumes "n < 2 ^ 32"
  shows "n + (16 - n mod 16) mod 16 \<le> 2 ^ 32"
    and "(n + (16 - n mod 16) mod 16) mod 16 = 0"
    and "(16 - n mod 16) mod 16 < 16"
proof -
  define q where "q = n div 16"
  define r where "r = n mod 16"
  have r: "r < 16" by (simp add: r_def)
  have n: "n = 16 * q + r" by (simp add: q_def r_def)
  have q: "q < 2 ^ 28" using assms by (simp add: q_def less_mult_imp_div_less)
  show "(16 - n mod 16) mod 16 < 16" by simp
  show "(n + (16 - n mod 16) mod 16) mod 16 = 0"
    unfolding r_def [symmetric] using r by (cases "r = 0") (simp_all add: n)
  show "n + (16 - n mod 16) mod 16 \<le> 2 ^ 32"
    unfolding r_def [symmetric] using r q by (cases "r = 0") (simp_all add: n)
qed

lemma fdump_empty: "fdump label [] = Some [label @ [CHR 0x0A], ''  '' @ [CHR 0x0A]]"
proof -
  let ?i = "\<lparr>tmpbuf = [], buf16 = replicate 17 NUL, total_len = 0, fp = [label @ [CHR 0x0A]]\<rparr>"
  have l: "fdump_loop [] 0 ?i = Some (0, ?i)" by (subst fdump_loop.simps) simp
  have p: "fdump_pad 0 ?i = ?i" by (subst fdump_pad.simps) simp
  have c: "cstr (replicate 17 NUL) = []" using cstr_padded [of "[]" 17] by simp
  show ?thesis
    by (simp add: fdump_def l p c snprintf_at_def MAX_TMPBUF_def)
qed

lemma fdump_exact:
  assumes "length buf < 2 ^ 32"
  shows "fdump label buf
           = Some ((label @ [CHR 0x0A]) # dump_rows (fdump_padding (length buf)) 0 buf)"
proof (cases buf)
  case Nil
  have "dump_rows (fdump_padding 0) 0 [] = [''  '' @ [CHR 0x0A]]"
    by (subst dump_rows.simps) (simp add: last_row_def fdump_padding_def ascii_col_def)
  then show ?thesis by (simp add: Nil fdump_empty)
next
  case (Cons b bs)
  define n where "n = length bs"
  define m where "m = Suc n"
  define k where "k = n div 16"
  define cur where "cur = drop (16 * k) buf"
  define t where "t = fmt_08x (16 * k) @ '' '' @ hex_cols 0 cur"
  define out where "out = (label @ [CHR 0x0A])
          # map (\<lambda>j. full_row (16 * j) (take 16 (drop (16 * j) buf))) [0..<k]"
  define pad where "pad = fdump_padding m"
  define c where "c = (16 - m mod 16) mod 16"
  let ?i = "\<lparr>tmpbuf = [], buf16 = replicate 17 NUL, total_len = 0, fp = [label @ [CHR 0x0A]]\<rparr>"
  have len: "length buf = m" by (simp add: Cons m_def n_def)
  have m32: "m < 2 ^ 32" using assms len by simp
  have nlt: "n < length buf" by (simp add: len m_def)
  have rs: "row_state label buf m = mk_state t (ascii_col cur) out"
    by (simp add: m_def row_state_unfold t_def cur_def out_def k_def len [symmetric])
       (simp add: len m_def)
  have loop: "fdump_loop buf 0 ?i = Some (of_nat m, row_state label buf m)"
    using fdump_loop_fold [OF assms, of 0 ?i] fold_row_state [OF assms nlt, of label]
    by (simp add: len m_def)
  have k32: "16 * k < 2 ^ 32" using m32 by (simp add: k_def m_def)
  have l8: "length (fmt_08x (16 * k)) = 8" using k32 by (rule length_fmt_08x)
  have km: "k = (m - 1) div 16" by (simp add: k_def m_def)
  have "16 * k \<le> m" by (simp add: k_def m_def)
  then have lcur: "length cur = m - 16 * k" by (simp add: cur_def len)
  have lcur16: "length cur \<le> 16" "0 < length cur"
    using row_arith(1) [of m] by (simp_all add: lcur km m_def) 
  have lt: "length t \<le> 73"
    using length_hex_cols [of 0 cur] lcur16 l8 by (simp add: t_def)
  have lp: "length pad \<le> 60"
    using length_pad_from [of m c] pad_count(3) [OF m32] by (simp add: pad_def fdump_padding_def c_def)
  have c15: "(16 - m mod 16) mod 16 \<le> 15"
    using pad_count(3) [OF m32] by arith
  have padded: "fdump_pad (of_nat m) (mk_state t (ascii_col cur) out)
      = mk_state (t @ pad) (ascii_col cur) out"
    unfolding pad_def fdump_padding_def
  proof (rule fdump_pad_eq)
    show "m + (16 - m mod 16) mod 16 \<le> 2 ^ 32" "(m + (16 - m mod 16) mod 16) mod 16 = 0"
      "(16 - m mod 16) mod 16 < 16"
      using m32 by (rule pad_count)+
    show "length t + 4 * ((16 - m mod 16) mod 16) < 1024"
      using lt c15 by arith
  qed
  have cs: "cstr (buf16 (mk_state (t @ pad) (ascii_col cur) out)) = ascii_col cur"
    using ascii_col_no_NUL [of cur] by (simp add: mk_state_def cstr_padded)
  have fin: "fst (snprintf_at (tmpbuf (mk_state (t @ pad) (ascii_col cur) out))
                    (total_len (mk_state (t @ pad) (ascii_col cur) out)) (''  '' @ ascii_col cur))
      = t @ pad @ ''  '' @ ascii_col cur"
    using lt lp lcur16 by (simp add: mk_state_def snprintf_at_def MAX_TMPBUF_def)
  have "fdump label buf = Some (out @ [t @ pad @ ''  '' @ ascii_col cur @ [CHR 0x0A]])"
    unfolding fdump_def loop option.case prod.case Let_def rs padded cs fin
    by (simp add: mk_state_def)
  moreover have "cur \<noteq> []" using lcur16(2) by auto
  then have "t @ pad @ ''  '' @ ascii_col cur @ [CHR 0x0A] = last_row pad (16 * k) cur"
    by (simp add: last_row_def t_def)
  moreover have "dump_rows pad 0 buf = map (\<lambda>j. full_row (16 * j) (take 16 (drop (16 * j) buf))) [0..<k]
      @ [last_row pad (16 * k) cur]"
    by (simp add: dump_rows_eq len km cur_def)
  ultimately show ?thesis by (simp add: out_def pad_def len)
qed

lemma dump_rows_last: "length bs \<le> 16 \<Longrightarrow> dump_rows pad off bs = [last_row pad off bs]"
  by (subst dump_rows.simps) simp

lemma dump_rows_more:
  "\<not> length bs \<le> 16 \<Longrightarrow>
     dump_rows pad off bs = full_row off (take 16 bs) # dump_rows pad (off + 16) (drop 16 bs)"
  by (subst dump_rows.simps) simp

lemma pad_from_spaces: "set (pad_from n k) \<subseteq> {CHR '' ''}"
proof (induction k arbitrary: n)
  case 0
  show ?case by simp
next
  case (Suc k)
  from Suc [of "Suc n"] show ?case by (cases "n = 8") auto
qed

lemma length_pad_from_exact:
  "length (pad_from n k) = 3 * k + (if n \<le> 8 \<and> 8 < n + k then 1 else 0)"
proof (induction k arbitrary: n)
  case 0
  show ?case by simp
next
  case (Suc k)
  from Suc [of "Suc n"] show ?case by (cases "n = 8") (auto split: if_splits)
qed

lemma pad_from_replicate:
  "pad_from n k = replicate (3 * k + (if n \<le> 8 \<and> 8 < n + k then 1 else 0)) CHR '' ''"
proof -
  have "\<forall>c \<in> set (pad_from n k). c = CHR '' ''" using pad_from_spaces [of n k] by auto
  then have "replicate (length (pad_from n k)) CHR '' '' = pad_from n k"
    by (rule replicate_length_same)
  then show ?thesis unfolding length_pad_from_exact by (rule sym)
qed

lemma fdump_padding_replicate:
  "fdump_padding len
     = replicate (3 * ((16 - len mod 16) mod 16) + (if 1 \<le> len \<and> len \<le> 8 then 1 else 0)) CHR '' ''"
proof -
  have "(len \<le> 8 \<and> 8 < len + (16 - len mod 16) mod 16) \<longleftrightarrow> (1 \<le> len \<and> len \<le> 8)"
    by (cases "len = 0") auto
  then show ?thesis by (simp add: fdump_padding_def pad_from_replicate)
qed

lemmas dump_defs =
  dump_rows_last dump_rows_more full_row_def last_row_def byte_cell_def ascii_col_def
  isprint_def byte_char_def char_of_def bit_Suc_0_iff

text \<open>
  C9 as stated fails: for a buffer of length zero the dump is the label line and a second
  line of two spaces, not the label line alone.
\<close>

theorem hex_dump_layout_counterexample:
  "spdk_log_dump ''dump'' [] = Some [''dump'' @ [CHR 0x0A], ''  '' @ [CHR 0x0A]]
   \<and> spdk_log_dump ''dump'' [] \<noteq> Some [''dump'' @ [CHR 0x0A]]"
  by (simp add: spdk_log_dump_def fdump_empty)

text \<open>
  C9, amended. For every label and every buffer of fewer than \<open>2 ^ 32\<close> bytes, the dump
  is the label on a line of its own followed by the rows of \<open>dump_rows\<close>, one for each
  sixteen bytes and one, of two spaces, for an empty buffer. A row starts with the offset
  in eight hex digits and two spaces; each byte is two hex digits and a space, and a
  further space precedes the ninth byte. A row that is followed by another ends with one
  more space and the ASCII column. The last row is padded with three spaces for each byte
  that it lacks of sixteen, and with one space more when the whole buffer has from one to
  eight bytes; it ends with two spaces and the ASCII column. In the ASCII column a byte
  that is not printable is a dot. The worked examples are a buffer of seventeen bytes, in
  two rows, the second holding one byte and 45 spaces for the fifteen it lacks, and a
  buffer of three bytes, in one row with 40 spaces of padding.
\<close>

theorem hex_dump_layout:
  assumes "length buf < 2 ^ 32"
  shows "spdk_log_dump label buf
           = Some ((label @ [CHR 0x0A]) # dump_rows (fdump_padding (length buf)) 0 buf)
       \<and> fdump_padding (length buf)
           = replicate (3 * ((16 - length buf mod 16) mod 16)
                          + (if 1 \<le> length buf \<and> length buf \<le> 8 then 1 else 0)) CHR '' ''"
  using assms by (simp add: spdk_log_dump_def fdump_exact fdump_padding_replicate)

theorem hex_dump_layout_witness:
  "length buf17 < 2 ^ 32
   \<and> spdk_log_dump ''dump'' buf17
       = Some [''dump'' @ [CHR 0x0A],
               ''00000000  30 31 32 33 34 35 36 37  38 39 3a 3b 3c 3d 0a 7f  0123456789:;<=..''
                 @ [CHR 0x0A],
               ''00000010  40 '' @ replicate 45 CHR '' '' @ ''  @'' @ [CHR 0x0A]]
   \<and> length buf3 < 2 ^ 32
   \<and> spdk_log_dump ''dump'' buf3
       = Some [''dump'' @ [CHR 0x0A],
               ''00000000  61 62 63 '' @ replicate 40 CHR '' '' @ ''  abc'' @ [CHR 0x0A]]"
proof -
  have l: "length buf17 < 2 ^ 32" "length buf3 < 2 ^ 32" by (simp_all add: buf17_def buf3_def)
  have n: "length buf17 = 17" "length buf3 = 3" by (simp_all add: buf17_def buf3_def)
  have r: "dump_rows pad 0 buf17
      = [''00000000  30 31 32 33 34 35 36 37  38 39 3a 3b 3c 3d 0a 7f  0123456789:;<=..''
           @ [CHR 0x0A],
         ''00000010  40 '' @ pad @ ''  @'' @ [CHR 0x0A]]" for pad
    by (simp add: buf17_def dump_defs fmt_defs)
  have r3: "dump_rows pad 0 buf3 = [''00000000  61 62 63 '' @ pad @ ''  abc'' @ [CHR 0x0A]]" for pad
    by (simp add: buf3_def dump_defs fmt_defs)
  from hex_dump_layout [OF l(1), of "''dump''"] hex_dump_layout [OF l(2), of "''dump''"] l
  show ?thesis
    unfolding n r r3 by simp
qed

end
